theory Spec2Isabelle
  imports Main "HOL-Library.Word"
begin

section \<open>Go values, types and errors\<close>

text \<open>
  The package stores results through \<^verbatim>\<open>any\<close> values and inspects them with
  \<^verbatim>\<open>reflect\<close>. The model covers the fragment of Go types built from \<^verbatim>\<open>int\<close>,
  \<^verbatim>\<open>string\<close>, \<^verbatim>\<open>bool\<close>, pointers and the empty interface \<^verbatim>\<open>any\<close>.
  A value of type \<^verbatim>\<open>any\<close> is \<open>None\<close> (the nil interface) or \<open>Some v\<close> with a
  dynamic value \<open>v\<close>; a pointer carries its element type and is nil (\<open>None\<close>) or
  an address. A typed nil pointer boxed in an interface is \<open>Some (VPtr t None)\<close>,
  which is not the nil interface.
\<close>

datatype gotype = TInt | TString | TBool | TPtr gotype | TAny

datatype val = VInt "64 word" | VString string | VBool bool | VPtr gotype "nat option"

type_synonym iface = "val option"

text \<open>
  Memory maps the address of a variable to its content, boxed as an interface value:
  a variable of a concrete type always holds \<open>Some v\<close>, a variable of type
  \<^verbatim>\<open>any\<close> may hold \<open>None\<close>.
\<close>

type_synonym store = "nat \<Rightarrow> iface"

text \<open>\<^verbatim>\<open>reflect.Kind\<close>, restricted to the kinds of the fragment, and its \<^verbatim>\<open>%v\<close> form.\<close>

datatype Kind = KInvalid | KBool | KInt | KString | KPtr

fun Kind_String :: "Kind \<Rightarrow> string" where
  "Kind_String KInvalid = ''invalid''"
| "Kind_String KBool = ''bool''"
| "Kind_String KInt = ''int''"
| "Kind_String KString = ''string''"
| "Kind_String KPtr = ''ptr''"

text \<open>\<^verbatim>\<open>reflect.ValueOf(x).Kind()\<close>: the zero Value of the nil interface has kind Invalid.\<close>

fun ValueOf_Kind :: "iface \<Rightarrow> Kind" where
  "ValueOf_Kind None = KInvalid"
| "ValueOf_Kind (Some (VInt _)) = KInt"
| "ValueOf_Kind (Some (VString _)) = KString"
| "ValueOf_Kind (Some (VBool _)) = KBool"
| "ValueOf_Kind (Some (VPtr _ _)) = KPtr"

text \<open>The dynamic type of a value (\<^verbatim>\<open>reflect.TypeOf\<close>); it is never an interface type.\<close>

fun TypeOf :: "val \<Rightarrow> gotype" where
  "TypeOf (VInt _) = TInt"
| "TypeOf (VString _) = TString"
| "TypeOf (VBool _) = TBool"
| "TypeOf (VPtr t _) = TPtr t"

fun Type_String :: "gotype \<Rightarrow> string" where
  "Type_String TInt = ''int''"
| "Type_String TString = ''string''"
| "Type_String TBool = ''bool''"
| "Type_String (TPtr t) = ''*'' @ Type_String t"
| "Type_String TAny = ''interface {}''"

text \<open>The verb \<^verbatim>\<open>%T\<close> of package fmt: the dynamic type, \<^verbatim>\<open><nil>\<close> for the nil interface.\<close>

fun fmt_T :: "iface \<Rightarrow> string" where
  "fmt_T None = ''<nil>''"
| "fmt_T (Some v) = Type_String (TypeOf v)"

text \<open>
  \<^verbatim>\<open>Type.AssignableTo\<close> on the fragment: identical types, or the target is the empty
  interface, which every type implements. The remaining clauses of Go's assignability
  (identical underlying types with one side unnamed, channels) relate no two types of
  the fragment.
\<close>

definition AssignableTo :: "gotype \<Rightarrow> gotype \<Rightarrow> bool" where
  "AssignableTo v t = (v = t \<or> t = TAny)"

text \<open>
  Error values. \<open>ErrorString\<close> is what \<^verbatim>\<open>errors.New\<close> and a \<^verbatim>\<open>fmt.Errorf\<close> without
  \<^verbatim>\<open>%w\<close> build; \<open>WrapError p e\<close> is \<^verbatim>\<open>fmt.Errorf(p + "%w", e)\<close>; \<open>Canceled\<close> and
  \<open>DeadlineExceeded\<close> are the two sentinel errors of package context. An error value
  is the term itself: which allocation an \<open>ErrorString\<close> or a \<open>WrapError\<close> is, is not
  part of the model.
\<close>

datatype goerror = ErrorString string | WrapError string goerror | Canceled | DeadlineExceeded


fun Unwrap :: "goerror \<Rightarrow> goerror option" where
  "Unwrap (WrapError p e) = Some e"
| "Unwrap e = None"




text \<open>A call either returns or panics.\<close>

datatype 'a result = Returns 'a | Panics

section \<open>The batch builder\<close>

text \<open>
  \<^verbatim>\<open>type AsyncFunc func() (any, error)\<close>: an operation is modelled by the pair it
  returns when called. \<^verbatim>\<open>asyncHolder\<close> and \<^verbatim>\<open>async\<close> are the structs of the source
  (the field \<^verbatim>\<open>fun\<close> is written \<open>fun'\<close>); a \<^verbatim>\<open>time.Duration\<close> is a signed 64-bit count.
\<close>

type_synonym AsyncFunc = "unit \<Rightarrow> iface \<times> goerror option"

record asyncHolder =
  dest :: iface
  fun' :: AsyncFunc

record async =
  funcs :: "asyncHolder list"
  timeout :: "64 word option"

definition RunInAsync :: async where
  "RunInAsync = \<lparr>funcs = [], timeout = None\<rparr>"

definition Task :: "async \<Rightarrow> iface \<Rightarrow> AsyncFunc \<Rightarrow> async" where
  "Task a d asyncFunc = a\<lparr>funcs := funcs a @ [\<lparr>dest = d, fun' = asyncFunc\<rparr>]\<rparr>"

definition WithTimeout :: "async \<Rightarrow> 64 word \<Rightarrow> async" where
  "WithTimeout a t = a\<lparr>timeout := Some t\<rparr>"

section \<open>Result assignment\<close>

text \<open>
  \<^verbatim>\<open>assignResult\<close>, check by check in the order of the source. The call
  \<^verbatim>\<open>resVal.Type()\<close> panics on the zero Value, that is when \<open>res\<close> is the nil
  interface. In the type-mismatch message \<^verbatim>\<open>destElem.Interface()\<close> boxes the content
  of the variable, whose dynamic type is the element type \<open>t\<close> of the pointer (\<open>t\<close> is
  not \<^verbatim>\<open>any\<close> there, since every type is assignable to \<^verbatim>\<open>any\<close>).
  \<^verbatim>\<open>destElem.Set\<close> writes the variable the pointer refers to.
\<close>

fun assignResult :: "iface \<Rightarrow> iface \<Rightarrow> store \<Rightarrow> (goerror option \<times> store) result" where
  "assignResult (Some (VPtr t None)) res s =
     Returns (Some (ErrorString ''destination pointer cannot be nil''), s)"
| "assignResult (Some (VPtr t (Some p))) None s = Panics"
| "assignResult (Some (VPtr t (Some p))) (Some v) s =
     (if \<not> AssignableTo (TypeOf v) t
      then Returns (Some (ErrorString (''type mismatch: cannot assign '' @ fmt_T (Some v)
                            @ '' to '' @ Type_String t)), s)
      else Returns (None, s(p := Some v)))"
| "assignResult d res s =
     Returns (Some (ErrorString (''destination must be a pointer, received '' @ fmt_T d
                       @ '' (kind: '' @ Kind_String (ValueOf_Kind d) @ '')'')), s)"

section \<open>One unit of work\<close>

text \<open>
  The closure that \<^verbatim>\<open>asyncTask\<close> hands to the group. \<open>ctx_err\<close> is what \<^verbatim>\<open>ctx.Err()\<close>
  gives at the \<^verbatim>\<open>select\<close>: \<open>None\<close> while the context is live (the \<^verbatim>\<open>default\<close>
  branch), \<open>Some e\<close> once \<^verbatim>\<open>ctx.Done()\<close> is closed.
\<close>

definition asyncTask :: "goerror option \<Rightarrow> iface \<Rightarrow> AsyncFunc \<Rightarrow> store
    \<Rightarrow> (goerror option \<times> store) result" where
  "asyncTask ctx_err d fn s =
     (case fn () of (res, err) \<Rightarrow>
        (case ctx_err of
           Some ce \<Rightarrow> Returns (Some (WrapError ''async operation was cancelled: '' ce), s)
         | None \<Rightarrow>
             if d \<noteq> None \<and> res \<noteq> None then
               (case assignResult d res s of
                  Panics \<Rightarrow> Panics
                | Returns (Some assignErr, s') \<Rightarrow>
                    Returns (Some (WrapError ''failed to assign result: '' assignErr), s')
                | Returns (None, s') \<Rightarrow> Returns (err, s'))
             else Returns (err, s)))"

section \<open>The group: units, context and first error\<close>

text \<open>
  \<^verbatim>\<open>Go\<close> starts one goroutine per task through \<^verbatim>\<open>errgroup.Group.Go\<close> and joins them
  with \<^verbatim>\<open>Wait\<close>. An execution is an interleaving of the atomic steps below, given as
  a list of events:
  \<^item> \<open>Check i\<close>: the operation of unit \<open>i\<close> has returned and the unit runs the rest of
    its closure (the \<^verbatim>\<open>select\<close> on the context, the assignment, the \<^verbatim>\<open>return\<close>);
  \<^item> \<open>Report i\<close>: the group receives the value unit \<open>i\<close> returned; the first non-nil
    one is kept (\<^verbatim>\<open>errOnce\<close>) and cancels the group's context;
  \<^item> \<open>Timeout\<close>: the timer of \<^verbatim>\<open>context.WithTimeout\<close> fires;
  \<^item> \<open>ParentDone e\<close>: the caller's context becomes done with error \<open>e\<close>.
  An event that cannot happen in the current state (a unit checked twice, a report
  before the check, a timeout without a timer) leaves the state as it is.
\<close>

datatype event = Check nat | Report nat | Timeout | ParentDone goerror

datatype stage = Running | Returned "goerror option" | Finished

record group =
  mem :: store
  ctxErr :: "goerror option"
  gErr :: "goerror option"
  units :: "stage list"

text \<open>Cancelling a context that is already done keeps its first error.\<close>

definition cancel :: "goerror \<Rightarrow> goerror option \<Rightarrow> goerror option" where
  "cancel e c = (case c of None \<Rightarrow> Some e | Some e0 \<Rightarrow> Some e0)"

text \<open>
  The context the units see when \<^verbatim>\<open>Go\<close> has derived it: done with the parent's error
  when the parent is done already, expired at once when the timeout is not positive,
  live otherwise.
\<close>

definition initial_ctx :: "async \<Rightarrow> goerror option \<Rightarrow> goerror option" where
  "initial_ctx a parent =
     (case parent of
        Some e \<Rightarrow> Some e
      | None \<Rightarrow> (case timeout a of
                   Some d \<Rightarrow> if sint d \<le> 0 then Some DeadlineExceeded else None
                 | None \<Rightarrow> None))"

definition start :: "async \<Rightarrow> goerror option \<Rightarrow> store \<Rightarrow> group" where
  "start a parent s =
     \<lparr>mem = s, ctxErr = initial_ctx a parent, gErr = None,
      units = replicate (length (funcs a)) Running\<rparr>"

fun step :: "async \<Rightarrow> event \<Rightarrow> group \<Rightarrow> group result" where
  "step a (Check i) g =
     (if i < length (funcs a) \<and> i < length (units g) \<and> units g ! i = Running then
        (case asyncTask (ctxErr g) (dest (funcs a ! i)) (fun' (funcs a ! i)) (mem g) of
           Panics \<Rightarrow> Panics
         | Returns (r, s') \<Rightarrow> Returns (g\<lparr>mem := s', units := (units g)[i := Returned r]\<rparr>))
      else Returns g)"
| "step a (Report i) g =
     (if i < length (units g) then
        (case units g ! i of
           Returned None \<Rightarrow> Returns (g\<lparr>units := (units g)[i := Finished]\<rparr>)
         | Returned (Some e) \<Rightarrow>
             (if gErr g = None
              then Returns (g\<lparr>gErr := Some e, ctxErr := cancel Canceled (ctxErr g),
                               units := (units g)[i := Finished]\<rparr>)
              else Returns (g\<lparr>units := (units g)[i := Finished]\<rparr>))
         | _ \<Rightarrow> Returns g)
      else Returns g)"
| "step a Timeout g =
     (if timeout a \<noteq> None then Returns (g\<lparr>ctxErr := cancel DeadlineExceeded (ctxErr g)\<rparr>)
      else Returns g)"
| "step a (ParentDone e) g = Returns (g\<lparr>ctxErr := cancel e (ctxErr g)\<rparr>)"

fun run :: "async \<Rightarrow> event list \<Rightarrow> group \<Rightarrow> group result" where
  "run a [] g = Returns g"
| "run a (ev # evs) g = (case step a ev g of Panics \<Rightarrow> Panics | Returns g' \<Rightarrow> run a evs g')"

text \<open>
  \<^verbatim>\<open>Go\<close>: \<^verbatim>\<open>Wait\<close> returns the group's error once every unit has finished. \<open>Blocked\<close>
  is a schedule that stops before that, \<open>Crashed\<close> a panic in a unit. The cancel
  calls that \<^verbatim>\<open>Wait\<close> and the deferred \<^verbatim>\<open>cancel\<close> of \<^verbatim>\<open>Go\<close> make come after every unit
  has finished and change nothing that is returned.
\<close>

datatype outcome = Done "goerror option" store | Blocked | Crashed

definition Go :: "async \<Rightarrow> goerror option \<Rightarrow> event list \<Rightarrow> store \<Rightarrow> outcome" where
  "Go a parent sched s =
     (case run a sched (start a parent s) of
        Panics \<Rightarrow> Crashed
      | Returns g \<Rightarrow> if list_all (\<lambda>u. u = Finished) (units g) then Done (gErr g) (mem g)
                     else Blocked)"

text \<open>
  Schedules. In a complete schedule every unit is checked and, later, reported. The
  context is never cancelled from outside when it starts live and the schedule has
  neither a timeout nor a parent event. The deadline passes first when the timer fires
  before any unit reaches its check.
\<close>

fun finishes :: "nat \<Rightarrow> event list \<Rightarrow> bool" where
  "finishes i [] = False"
| "finishes i (ev # evs) = (if ev = Check i then Report i \<in> set evs else finishes i evs)"

definition complete :: "nat \<Rightarrow> event list \<Rightarrow> bool" where
  "complete n sched = list_all (\<lambda>i. finishes i sched) [0..<n]"

fun internal :: "event \<Rightarrow> bool" where
  "internal (Check i) = True"
| "internal (Report i) = True"
| "internal ev = False"

definition never_cancelled :: "async \<Rightarrow> goerror option \<Rightarrow> event list \<Rightarrow> bool" where
  "never_cancelled a parent sched = (initial_ctx a parent = None \<and> list_all internal sched)"





text \<open>
  Observers of an execution. \<open>first_error a sched g\<close> is the first non-nil error a
  unit hands to the group when \<open>sched\<close> runs from \<open>g\<close>, read off the units' returned
  values and not off the group's record. \<open>after a parent s evs\<close> is the state of the
  group once \<open>evs\<close> have happened. \<open>first_failure a parent s i pre mid\<close>: in a schedule
  \<open>pre @ Check i # mid @ Report i # post\<close> unit \<open>i\<close> reaches its check after \<open>pre\<close> with the
  context live, and when it reports after \<open>mid\<close> the group has recorded no error yet.
\<close>

fun reported :: "event \<Rightarrow> group \<Rightarrow> goerror option" where
  "reported (Report i) g =
     (if i < length (units g) then (case units g ! i of Returned r \<Rightarrow> r | _ \<Rightarrow> None) else None)"
| "reported ev g = None"

fun first_error :: "async \<Rightarrow> event list \<Rightarrow> group \<Rightarrow> goerror option" where
  "first_error a [] g = None"
| "first_error a (ev # evs) g =
     (case reported ev g of
        Some e \<Rightarrow> Some e
      | None \<Rightarrow> (case step a ev g of Panics \<Rightarrow> None | Returns g' \<Rightarrow> first_error a evs g'))"

definition after :: "async \<Rightarrow> goerror option \<Rightarrow> store \<Rightarrow> event list \<Rightarrow> group" where
  "after a parent s evs =
     (case run a evs (start a parent s) of Returns g \<Rightarrow> g | Panics \<Rightarrow> start a parent s)"

definition first_failure :: "async \<Rightarrow> goerror option \<Rightarrow> store \<Rightarrow> nat \<Rightarrow> event list \<Rightarrow> event list \<Rightarrow> bool" where
  "first_failure a parent s i pre mid =
     (i < length (funcs a) \<and> units (after a parent s pre) ! i = Running \<and>
      ctxErr (after a parent s pre) = None \<and>
      gErr (after a parent s (pre @ Check i # mid)) = None)"

text \<open>
  Two readings of a task used in the statements below. \<open>slot h\<close> is the variable the
  destination of \<open>h\<close> points to, when it is a non-nil pointer. \<open>unit_error h\<close> is what
  the unit of \<open>h\<close> returns when its check finds the context live; the memory it runs
  on has no influence on that value (lemma \<open>asyncTask_live_error\<close>).
\<close>

definition slot :: "asyncHolder \<Rightarrow> nat option" where
  "slot h = (case dest h of Some (VPtr t (Some p)) \<Rightarrow> Some p | _ \<Rightarrow> None)"

definition unit_error :: "asyncHolder \<Rightarrow> goerror option" where
  "unit_error h =
     (case asyncTask None (dest h) (fun' h) (\<lambda>p. None) of
        Returns (r, s') \<Rightarrow> r
      | Panics \<Rightarrow> None)"

text \<open>
  For the concrete instances: an operation that returns a given pair, and a memory of
  zero values in which variable 1 is a string and every other variable an int.
\<close>

definition returning :: "iface \<Rightarrow> goerror option \<Rightarrow> AsyncFunc" where
  "returning res err = (\<lambda>u. (res, err))"

definition zeroed :: store where
  "zeroed = (\<lambda>p. if p = 1 then Some (VString []) else Some (VInt 0))"

section \<open>Hypotheses of the claims and concrete batches\<close>

text \<open>
  \<open>well_bound h\<close>: the destination is a non-nil pointer and the operation succeeds with
  a non-nil value assignable to the pointed-to type. \<open>binding_fails h\<close>: the unit
  attempts the assignment (destination and result both non-nil) and \<^verbatim>\<open>assignResult\<close>
  returns an error. \<open>others_succeed a i\<close>: no unit but \<open>i\<close> returns an error on a live
  context. \<open>unaliased a i p\<close>: no task but \<open>i\<close> has a destination that points to
  variable \<open>p\<close>.
\<close>

definition well_bound :: "asyncHolder \<Rightarrow> bool" where
  "well_bound h =
     (case (dest h, fun' h ()) of
        (Some (VPtr t (Some p)), (Some v, None)) \<Rightarrow> AssignableTo (TypeOf v) t
      | _ \<Rightarrow> False)"

definition binding_fails :: "asyncHolder \<Rightarrow> bool" where
  "binding_fails h =
     (dest h \<noteq> None \<and> fst (fun' h ()) \<noteq> None \<and>
      (case assignResult (dest h) (fst (fun' h ())) (\<lambda>p. None) of
         Returns (Some e, s') \<Rightarrow> True
       | _ \<Rightarrow> False))"

definition others_succeed :: "async \<Rightarrow> nat \<Rightarrow> bool" where
  "others_succeed a i =
     list_all (\<lambda>j. j = i \<or> unit_error (funcs a ! j) = None) [0..<length (funcs a)]"

definition unaliased :: "async \<Rightarrow> nat \<Rightarrow> nat \<Rightarrow> bool" where
  "unaliased a i p =
     list_all (\<lambda>j. j = i \<or> slot (funcs a ! j) \<noteq> Some p) [0..<length (funcs a)]"

text \<open>
  The batches of the repository's tests: an int and a string result, a failing
  operation, a slow operation under a 50 ms timeout, a nil pointer and a non-pointer
  destination, an int for a string variable, a nil result, an untyped nil destination,
  and operations that return a value together with an error; then a failing operation
  under a timeout, and a nil pointer destination beside a failing operation.
\<close>

definition example_batch :: async where
  "example_batch =
     Task (Task RunInAsync (Some (VPtr TInt (Some 0))) (returning (Some (VInt 42)) None))
       (Some (VPtr TString (Some 1))) (returning (Some (VString ''hello'')) None)"

definition failing_batch :: async where
  "failing_batch =
     Task (Task RunInAsync (Some (VPtr TInt (Some 0))) (returning None (Some (ErrorString ''test error''))))
       (Some (VPtr TString (Some 1))) (returning (Some (VString ''hello'')) None)"


definition nil_pointer_batch :: async where
  "nil_pointer_batch = Task RunInAsync (Some (VPtr TInt None)) (returning (Some (VInt 42)) None)"

definition non_pointer_batch :: async where
  "non_pointer_batch = Task RunInAsync (Some (VInt 0)) (returning (Some (VInt 42)) None)"

definition mismatch_batch :: async where
  "mismatch_batch = Task RunInAsync (Some (VPtr TString (Some 1))) (returning (Some (VInt 42)) None)"

definition nil_result_batch :: async where
  "nil_result_batch = Task RunInAsync (Some (VPtr TInt (Some 0))) (returning None None)"

definition nil_destination_batch :: async where
  "nil_destination_batch = Task RunInAsync None (returning (Some (VInt 42)) None)"

definition value_error_batch :: async where
  "value_error_batch =
     Task RunInAsync (Some (VPtr TInt (Some 0)))
       (returning (Some (VInt 42)) (Some (ErrorString ''test error'')))"

definition masked_error_batch :: async where
  "masked_error_batch =
     Task RunInAsync (Some (VPtr TString (Some 1)))
       (returning (Some (VInt 42)) (Some (ErrorString ''test error'')))"

definition racing_batch :: async where
  "racing_batch =
     Task (WithTimeout RunInAsync 50000000) (Some (VPtr TInt (Some 0)))
       (returning None (Some (ErrorString ''test error'')))"

definition rival_batch :: async where
  "rival_batch =
     Task (Task RunInAsync (Some (VPtr TInt None)) (returning (Some (VInt 42)) None))
       (Some (VPtr TInt (Some 0))) (returning None (Some (ErrorString ''test error'')))"

section \<open>Invariants of an execution\<close>

text \<open>
  \<open>live_inv\<close> holds along every execution whose context is never cancelled from
  outside: the context is done only after the group has recorded an error, the recorded
  error is the error some unit returns on a live context, and a unit that returned or
  finished without such an error did so after the group had recorded one.
\<close>

definition live_inv :: "async \<Rightarrow> group \<Rightarrow> bool" where
  "live_inv a g =
     (length (units g) = length (funcs a) \<and>
      (gErr g = None \<longrightarrow> ctxErr g = None) \<and>
      (\<forall>x. gErr g = Some x \<longrightarrow> (\<exists>j<length (funcs a). unit_error (funcs a ! j) = Some x)) \<and>
      (\<forall>j<length (funcs a). \<forall>x. units g ! j = Returned (Some x) \<longrightarrow>
           unit_error (funcs a ! j) = Some x \<or> gErr g \<noteq> None) \<and>
      (\<forall>j<length (funcs a). units g ! j = Returned None \<longrightarrow> unit_error (funcs a ! j) = None) \<and>
      (\<forall>j<length (funcs a). units g ! j = Finished \<longrightarrow>
           unit_error (funcs a ! j) = None \<or> gErr g \<noteq> None))"

text \<open>
  \<open>bound_inv i p v\<close>: unit \<open>i\<close> is the only one that can fail; the group records an
  error only when unit \<open>i\<close> reports, and once unit \<open>i\<close> is past its check variable \<open>p\<close>
  holds \<open>v\<close>.
\<close>

definition bound_inv :: "nat \<Rightarrow> nat \<Rightarrow> val \<Rightarrow> group \<Rightarrow> bool" where
  "bound_inv i p v g =
     ((gErr g \<noteq> None \<longrightarrow> units g ! i = Finished) \<and>
      (units g ! i \<noteq> Running \<longrightarrow> mem g p = Some v))"

text \<open>
  \<open>cancelled_inv\<close> holds along every execution that starts from a context done with
  \<open>e0\<close>: memory stays as it was and every unit returns the cancellation error.
\<close>

definition cancelled_inv :: "async \<Rightarrow> goerror \<Rightarrow> store \<Rightarrow> group \<Rightarrow> bool" where
  "cancelled_inv a e0 s g =
     (length (units g) = length (funcs a) \<and> ctxErr g = Some e0 \<and> mem g = s \<and>
      (gErr g = None \<or> gErr g = Some (WrapError ''async operation was cancelled: '' e0)) \<and>
      (\<forall>j<length (funcs a).
          units g ! j = Running \<or>
          units g ! j = Returned (Some (WrapError ''async operation was cancelled: '' e0)) \<or>
          (units g ! j = Finished \<and>
           gErr g = Some (WrapError ''async operation was cancelled: '' e0))))"

section \<open>Units never panic; schedules that run every unit to its end\<close>

lemma assignResult_Some: "res \<noteq> None \<Longrightarrow> assignResult d res s \<noteq> Panics"
  by (cases "(d, res, s)" rule: assignResult.cases) auto

lemma asyncTask_Returns: "\<exists>r s'. asyncTask c d fn s = Returns (r, s')"
proof (cases "fn ()")
  case (Pair res err)
  show ?thesis
  proof (cases "c = None \<and> d \<noteq> None \<and> res \<noteq> None")
    case True
    then have "assignResult d res s \<noteq> Panics" by (simp add: assignResult_Some)
    then obtain r s' where "assignResult d res s = Returns (r, s')"
      by (cases "assignResult d res s") auto
    with True Pair show ?thesis by (cases r) (auto simp: asyncTask_def)
  next
    case False
    with Pair show ?thesis by (auto simp: asyncTask_def split: option.splits)
  qed
qed

lemma step_Returns: "\<exists>g'. step a ev g = Returns g'"
proof (cases ev)
  case (Check i)
  obtain r s' where "asyncTask (ctxErr g) (dest (funcs a ! i)) (fun' (funcs a ! i)) (mem g) = Returns (r, s')"
    using asyncTask_Returns by blast
  with Check show ?thesis by simp
next
  case (Report i)
  then show ?thesis by (simp split: stage.splits option.splits)
qed simp_all

lemma run_Returns: "\<exists>g'. run a sched g = Returns g'"
proof (induction sched arbitrary: g)
  case (Cons ev evs)
  obtain g1 where "step a ev g = Returns g1" using step_Returns by blast
  with Cons show ?case by simp
qed simp

lemma run_invariant:
  assumes "run a sched g0 = Returns g" and "I g0"
    and "\<And>ev g g'. ev \<in> set sched \<Longrightarrow> I g \<Longrightarrow> step a ev g = Returns g' \<Longrightarrow> I g'"
  shows "I g"
  using assms
proof (induction sched arbitrary: g0)
  case (Cons ev evs)
  obtain g1 where g1: "step a ev g0 = Returns g1" using step_Returns by blast
  have "I g1" using Cons.prems(2,3) g1 by auto
  moreover have "run a evs g1 = Returns g" using Cons.prems(1) g1 by simp
  ultimately show ?case using Cons.IH Cons.prems(3) by auto
qed simp

lemma step_length: "step a ev g = Returns g' \<Longrightarrow> length (units g') = length (units g)"
  by (cases ev) (auto split: if_splits result.splits stage.splits option.splits)

lemma run_length: "run a sched g0 = Returns g \<Longrightarrow> length (units g) = length (units g0)"
  by (rule run_invariant[where I="\<lambda>g. length (units g) = length (units g0)"]) (auto dest: step_length)

lemma step_not_Running:
  "step a ev g = Returns g' \<Longrightarrow> i < length (units g) \<Longrightarrow> units g ! i \<noteq> Running
     \<Longrightarrow> units g' ! i \<noteq> Running"
  by (cases ev) (auto simp: nth_list_update split: if_splits result.splits stage.splits option.splits)

lemma step_Finished:
  "step a ev g = Returns g' \<Longrightarrow> i < length (units g) \<Longrightarrow> units g ! i = Finished
     \<Longrightarrow> units g' ! i = Finished"
  by (cases ev) (auto simp: nth_list_update split: if_splits result.splits stage.splits option.splits)

lemma step_Check_not_Running:
  "step a (Check i) g = Returns g' \<Longrightarrow> i < length (funcs a) \<Longrightarrow> i < length (units g)
     \<Longrightarrow> units g' ! i \<noteq> Running"
  by (auto split: if_splits result.splits)

lemma step_Report_Finished:
  "step a (Report i) g = Returns g' \<Longrightarrow> i < length (units g) \<Longrightarrow> units g ! i \<noteq> Running
     \<Longrightarrow> units g' ! i = Finished"
  by (auto split: if_splits stage.splits option.splits)

lemma run_Finished:
  "run a sched g0 = Returns g \<Longrightarrow> i < length (units g0) \<Longrightarrow> units g0 ! i = Finished
     \<Longrightarrow> units g ! i = Finished"
proof (induction sched arbitrary: g0)
  case (Cons ev evs)
  obtain g1 where g1: "step a ev g0 = Returns g1" using step_Returns by blast
  then show ?case using Cons step_Finished[OF g1] step_length[OF g1] by auto
qed simp

lemma run_Report_Finished:
  "run a sched g0 = Returns g \<Longrightarrow> i < length (units g0) \<Longrightarrow> units g0 ! i \<noteq> Running
     \<Longrightarrow> Report i \<in> set sched \<Longrightarrow> units g ! i = Finished"
proof (induction sched arbitrary: g0)
  case (Cons ev evs)
  obtain g1 where g1: "step a ev g0 = Returns g1" using step_Returns by blast
  have r: "run a evs g1 = Returns g" using Cons.prems(1) g1 by simp
  have l: "i < length (units g1)" using step_length[OF g1] Cons.prems(2) by simp
  show ?case
  proof (cases "ev = Report i")
    case True
    then have "units g1 ! i = Finished"
      using step_Report_Finished g1 Cons.prems by blast
    then show ?thesis using run_Finished[OF r l] by simp
  next
    case False
    then have "Report i \<in> set evs" using Cons.prems(4) by auto
    moreover have "units g1 ! i \<noteq> Running"
      using step_not_Running[OF g1] Cons.prems by blast
    ultimately show ?thesis using Cons.IH[OF r l] by blast
  qed
qed simp

lemma run_finishes:
  "run a sched g0 = Returns g \<Longrightarrow> i < length (units g0) \<Longrightarrow> i < length (funcs a)
     \<Longrightarrow> finishes i sched \<Longrightarrow> units g ! i = Finished"
proof (induction sched arbitrary: g0)
  case (Cons ev evs)
  obtain g1 where g1: "step a ev g0 = Returns g1" using step_Returns by blast
  have r: "run a evs g1 = Returns g" using Cons.prems(1) g1 by simp
  have l: "i < length (units g1)" using step_length[OF g1] Cons.prems(2) by simp
  show ?case
  proof (cases "ev = Check i")
    case True
    then have "units g1 ! i \<noteq> Running"
      using step_Check_not_Running g1 Cons.prems by blast
    moreover have "Report i \<in> set evs" using True Cons.prems(4) by simp
    ultimately show ?thesis using run_Report_Finished[OF r l] by blast
  next
    case False
    then have "finishes i evs" using Cons.prems(4) by simp
    then show ?thesis using Cons.IH[OF r l Cons.prems(3)] by blast
  qed
qed simp

lemma run_complete:
  assumes "run a sched g0 = Returns g" and "length (units g0) = length (funcs a)"
    and "complete (length (funcs a)) sched"
  shows "list_all (\<lambda>u. u = Finished) (units g)"
proof -
  have "\<forall>i<length (units g). units g ! i = Finished"
  proof (intro allI impI)
    fix i assume "i < length (units g)"
    then have i: "i < length (funcs a)" using run_length[OF assms(1)] assms(2) by simp
    then have "finishes i sched" using assms(3) by (simp add: complete_def list_all_iff)
    then show "units g ! i = Finished" using run_finishes[OF assms(1)] i assms(2) by simp
  qed
  then show ?thesis by (simp add: list_all_length)
qed

section \<open>What one unit does\<close>

lemma assignResult_cases:
  assumes "assignResult d (Some v) s = Returns (r, s')"
  shows "(r \<noteq> None \<and> s' = s) \<or>
         (\<exists>t p. d = Some (VPtr t (Some p)) \<and> AssignableTo (TypeOf v) t \<and> r = None \<and> s' = s(p := Some v))"
  using assms by (cases "(d, Some v, s)" rule: assignResult.cases) (auto split: if_splits)

lemma assignResult_error_mem:
  "assignResult d (Some v) s = Returns (r, s') \<Longrightarrow> assignResult d (Some v) s0 = Returns (r0, s0')
     \<Longrightarrow> r0 = r"
  by (cases "(d, Some v, s)" rule: assignResult.cases) (auto split: if_splits)

lemma asyncTask_cancelled:
  "asyncTask (Some ce) d fn s = Returns (Some (WrapError ''async operation was cancelled: '' ce), s)"
  by (simp add: asyncTask_def split: prod.splits)

lemma asyncTask_live_error:
  assumes "asyncTask None (dest h) (fun' h) s = Returns (r, s')"
  shows "r = unit_error h"
proof -
  obtain r0 s0 where r0: "asyncTask None (dest h) (fun' h) (\<lambda>p. None) = Returns (r0, s0)"
    using asyncTask_Returns by blast
  obtain res err where f: "fun' h () = (res, err)" by (cases "fun' h ()")
  have "r0 = r"
  proof (cases "dest h \<noteq> None \<and> res \<noteq> None")
    case True
    then obtain v where v: "res = Some v" by auto
    obtain x sx where x: "assignResult (dest h) (Some v) s = Returns (x, sx)"
      using assignResult_Some[of "Some v" "dest h" s] by (cases "assignResult (dest h) (Some v) s") auto
    obtain y sy where y: "assignResult (dest h) (Some v) (\<lambda>p. None) = Returns (y, sy)"
      using assignResult_Some[of "Some v" "dest h" "\<lambda>p. None"]
      by (cases "assignResult (dest h) (Some v) (\<lambda>p. None)") auto
    have "y = x" using assignResult_error_mem[OF x y] .
    then show ?thesis using assms r0 f v True x y
      by (auto simp: asyncTask_def split: option.splits)
  next
    case False
    then show ?thesis using assms r0 f by (auto simp: asyncTask_def)
  qed
  then show ?thesis using r0 by (simp add: unit_error_def)
qed

lemma asyncTask_write:
  assumes "asyncTask c d fn s = Returns (r, s')"
  shows "s' = s \<or> (c = None \<and> (\<exists>t p v. d = Some (VPtr t (Some p)) \<and> fst (fn ()) = Some v
            \<and> AssignableTo (TypeOf v) t \<and> s' = s(p := Some v) \<and> r = snd (fn ())))"
proof -
  obtain res err where f: "fn () = (res, err)" by (cases "fn ()")
  show ?thesis
  proof (cases "c = None \<and> d \<noteq> None \<and> res \<noteq> None")
    case True
    then obtain v where v: "res = Some v" by auto
    obtain x sx where x: "assignResult d (Some v) s = Returns (x, sx)"
      using assignResult_Some[of "Some v" d s] by (cases "assignResult d (Some v) s") auto
    from assignResult_cases[OF x] show ?thesis
      using assms f v True x by (auto simp: asyncTask_def split: option.splits)
  next
    case False
    then show ?thesis using assms f by (auto simp: asyncTask_def split: option.splits)
  qed
qed

lemma asyncTask_frame:
  "asyncTask c (dest h) (fun' h) s = Returns (r, s') \<Longrightarrow> slot h \<noteq> Some p \<Longrightarrow> s' p = s p"
  by (drule asyncTask_write) (auto simp: slot_def)

lemma asyncTask_bind:
  assumes "d = Some (VPtr t (Some p))" and "fn () = (Some v, err)" and "AssignableTo (TypeOf v) t"
  shows "asyncTask None d fn s = Returns (err, s(p := Some v))"
  using assms by (simp add: asyncTask_def)

section \<open>Executions on a live context\<close>

lemma step_Check_eq:
  assumes "step a (Check i) g = Returns g'"
  shows "g' = g \<or> (i < length (funcs a) \<and> i < length (units g) \<and> units g ! i = Running \<and>
           (\<exists>r s'. asyncTask (ctxErr g) (dest (funcs a ! i)) (fun' (funcs a ! i)) (mem g) = Returns (r, s')
              \<and> g' = g\<lparr>mem := s', units := (units g)[i := Returned r]\<rparr>))"
  using assms by (auto split: if_splits result.splits)

lemma step_Report_eq:
  assumes "step a (Report i) g = Returns g'"
  shows "g' = g \<or> (i < length (units g) \<and>
           ((units g ! i = Returned None \<and> g' = g\<lparr>units := (units g)[i := Finished]\<rparr>) \<or>
            (\<exists>e. units g ! i = Returned (Some e) \<and> gErr g = None \<and>
                 g' = g\<lparr>gErr := Some e, ctxErr := cancel Canceled (ctxErr g),
                         units := (units g)[i := Finished]\<rparr>) \<or>
            (\<exists>e. units g ! i = Returned (Some e) \<and> gErr g \<noteq> None \<and>
                 g' = g\<lparr>units := (units g)[i := Finished]\<rparr>)))"
  using assms by (auto split: if_splits stage.splits option.splits)

lemma live_inv_Check:
  assumes inv: "live_inv a g" and st: "step a (Check i) g = Returns g'"
  shows "live_inv a g'"
proof -
  from step_Check_eq[OF st] show ?thesis
  proof
    assume "g' = g" then show ?thesis using inv by simp
  next
    assume h: "i < length (funcs a) \<and> i < length (units g) \<and> units g ! i = Running \<and>
           (\<exists>r s'. asyncTask (ctxErr g) (dest (funcs a ! i)) (fun' (funcs a ! i)) (mem g) = Returns (r, s')
              \<and> g' = g\<lparr>mem := s', units := (units g)[i := Returned r]\<rparr>)"
    then obtain r s' where t: "asyncTask (ctxErr g) (dest (funcs a ! i)) (fun' (funcs a ! i)) (mem g) = Returns (r, s')"
      and g': "g' = g\<lparr>mem := s', units := (units g)[i := Returned r]\<rparr>" by blast
    have r: "r = unit_error (funcs a ! i) \<or> (r \<noteq> None \<and> gErr g \<noteq> None)"
    proof (cases "ctxErr g")
      case None
      then show ?thesis using t asyncTask_live_error by simp
    next
      case (Some ce)
      then have "gErr g \<noteq> None" using inv by (auto simp: live_inv_def)
      moreover have "r \<noteq> None" using t Some by (auto simp: asyncTask_cancelled)
      ultimately show ?thesis by simp
    qed
    show ?thesis using inv r h unfolding live_inv_def g'
      by (auto simp: nth_list_update)
  qed
qed

lemma live_inv_Report:
  assumes inv: "live_inv a g" and st: "step a (Report i) g = Returns g'"
  shows "live_inv a g'"
  using step_Report_eq[OF st] inv unfolding live_inv_def
  by (elim disjE conjE exE) (auto simp: nth_list_update cancel_def)

lemma live_inv_step:
  "live_inv a g \<Longrightarrow> internal ev \<Longrightarrow> step a ev g = Returns g' \<Longrightarrow> live_inv a g'"
  by (cases ev) (auto intro: live_inv_Check live_inv_Report)

lemma live_inv_start:
  "initial_ctx a parent = None \<Longrightarrow> live_inv a (start a parent s)"
  by (simp add: live_inv_def start_def)

lemma live_inv_run:
  assumes "run a sched g0 = Returns g" and "live_inv a g0" and "list_all internal sched"
  shows "live_inv a g"
  by (rule run_invariant[OF assms(1), where I="live_inv a"])
     (use assms in \<open>auto simp: list_all_iff intro: live_inv_step\<close>)

lemma start_length: "length (units (start a parent s)) = length (funcs a)"
  by (simp add: start_def)

lemma Go_complete:
  assumes "complete (length (funcs a)) sched"
  obtains g where "run a sched (start a parent s) = Returns g"
    and "Go a parent sched s = Done (gErr g) (mem g)"
    and "\<forall>j<length (funcs a). units g ! j = Finished"
proof -
  obtain g where g: "run a sched (start a parent s) = Returns g" using run_Returns by blast
  have fin: "list_all (\<lambda>u. u = Finished) (units g)"
    using run_complete[OF g start_length assms] .
  have len: "length (units g) = length (funcs a)" using run_length[OF g] start_length by simp
  have "Go a parent sched s = Done (gErr g) (mem g)" using g fin by (simp add: Go_def)
  moreover have "\<forall>j<length (funcs a). units g ! j = Finished"
    using fin len by (simp add: list_all_length)
  ultimately show ?thesis using that g by blast
qed

lemma Go_live:
  assumes "never_cancelled a parent sched" and "complete (length (funcs a)) sched"
  obtains g where "run a sched (start a parent s) = Returns g"
    and "Go a parent sched s = Done (gErr g) (mem g)"
    and "\<forall>j<length (funcs a). units g ! j = Finished"
    and "live_inv a g"
proof -
  obtain g where g: "run a sched (start a parent s) = Returns g"
    and d: "Go a parent sched s = Done (gErr g) (mem g)"
    and f: "\<forall>j<length (funcs a). units g ! j = Finished"
    using Go_complete[OF assms(2)] by blast
  have "live_inv a g"
    using live_inv_run[OF g] live_inv_start assms(1) by (simp add: never_cancelled_def)
  then show ?thesis using that g d f by blast
qed

lemma Go_live_success:
  assumes "never_cancelled a parent sched" and "complete (length (funcs a)) sched"
    and "\<forall>j<length (funcs a). unit_error (funcs a ! j) = None"
  shows "\<exists>s'. Go a parent sched s = Done None s'"
proof -
  obtain g where d: "Go a parent sched s = Done (gErr g) (mem g)" and inv: "live_inv a g"
    using Go_live[OF assms(1,2)] by blast
  have "gErr g = None"
  proof (cases "gErr g")
    case (Some x)
    then show ?thesis using inv assms(3) by (auto simp: live_inv_def)
  qed simp
  then show ?thesis using d by simp
qed

lemma Go_live_failure:
  assumes "never_cancelled a parent sched" and "complete (length (funcs a)) sched"
    and "i < length (funcs a)" and "unit_error (funcs a ! i) \<noteq> None"
  shows "\<exists>x s'. Go a parent sched s = Done (Some x) s' \<and>
           (\<exists>j<length (funcs a). unit_error (funcs a ! j) = Some x)"
proof -
  obtain g where d: "Go a parent sched s = Done (gErr g) (mem g)" and inv: "live_inv a g"
    and f: "\<forall>j<length (funcs a). units g ! j = Finished"
    using Go_live[OF assms(1,2)] by blast
  have "units g ! i = Finished" using f assms(3) by simp
  then have "gErr g \<noteq> None" using inv assms(3,4) by (auto simp: live_inv_def)
  then obtain x where x: "gErr g = Some x" by auto
  then have "\<exists>j<length (funcs a). unit_error (funcs a ! j) = Some x"
    using inv by (simp add: live_inv_def)
  then show ?thesis using d x by auto
qed

lemma Go_sole_failure:
  assumes "never_cancelled a parent sched" and "complete (length (funcs a)) sched"
    and "i < length (funcs a)" and "unit_error (funcs a ! i) = Some e"
    and "\<forall>j<length (funcs a). j \<noteq> i \<longrightarrow> unit_error (funcs a ! j) = None"
  shows "\<exists>s'. Go a parent sched s = Done (Some e) s'"
proof -
  obtain x s' where d: "Go a parent sched s = Done (Some x) s'"
    and j: "\<exists>j<length (funcs a). unit_error (funcs a ! j) = Some x"
    using Go_live_failure[OF assms(1,2,3), of s] assms(4) by auto
  then obtain j where "j < length (funcs a)" "unit_error (funcs a ! j) = Some x" by blast
  then have "x = e" using assms(4,5) by (cases "j = i") auto
  then show ?thesis using d by auto
qed

lemma run_frame:
  assumes "run a sched g0 = Returns g"
    and "\<forall>j<length (funcs a). \<forall>c s0 r s1.
           asyncTask c (dest (funcs a ! j)) (fun' (funcs a ! j)) s0 = Returns (r, s1) \<longrightarrow> s1 p = s0 p"
  shows "mem g p = mem g0 p"
proof (rule run_invariant[OF assms(1), where I="\<lambda>g. mem g p = mem g0 p"])
  fix ev g g'
  assume i: "mem g p = mem g0 p" and st: "step a ev g = Returns g'"
  show "mem g' p = mem g0 p"
  proof (cases ev)
    case (Check i)
    then show ?thesis using step_Check_eq[of a i g g'] st i assms(2) by (auto; metis)
  next
    case (Report i)
    then show ?thesis using step_Report_eq[of a i g g'] st i by auto
  next
    case Timeout
    then show ?thesis using st i by (auto split: if_splits)
  next
    case (ParentDone e)
    then show ?thesis using st i by auto
  qed
qed simp

lemma bound_inv_step:
  assumes i: "i < length (funcs a)"
    and d: "dest (funcs a ! i) = Some (VPtr t (Some p))"
    and f: "fst (fun' (funcs a ! i) ()) = Some v"
    and asg: "AssignableTo (TypeOf v) t"
    and others: "\<forall>j<length (funcs a). j \<noteq> i \<longrightarrow>
                   unit_error (funcs a ! j) = None \<and> slot (funcs a ! j) \<noteq> Some p"
    and inv: "live_inv a g" and b: "bound_inv i p v g"
    and int: "internal ev" and st: "step a ev g = Returns g'"
  shows "bound_inv i p v g'"
proof (cases ev)
  case (Check j)
  from step_Check_eq[of a j g g'] st Check
  consider "g' = g"
    | r s' where "j < length (funcs a)" "j < length (units g)" "units g ! j = Running"
        "asyncTask (ctxErr g) (dest (funcs a ! j)) (fun' (funcs a ! j)) (mem g) = Returns (r, s')"
        "g' = g\<lparr>mem := s', units := (units g)[j := Returned r]\<rparr>"
    by auto
  then show ?thesis
  proof cases
    case 1 then show ?thesis using b by simp
  next
    case 2
    show ?thesis
    proof (cases "j = i")
      case True
      then have "gErr g = None" using b 2(3) by (auto simp: bound_inv_def)
      then have c: "ctxErr g = None" using inv by (simp add: live_inv_def)
      obtain err where "fun' (funcs a ! i) () = (Some v, err)"
        using f by (cases "fun' (funcs a ! i) ()") auto
      then have "asyncTask None (dest (funcs a ! i)) (fun' (funcs a ! i)) (mem g)
                   = Returns (err, (mem g)(p := Some v))"
        using asyncTask_bind[OF d _ asg] by simp
      then have "s' = (mem g)(p := Some v)" using 2(4) c True by simp
      then show ?thesis using 2 True \<open>gErr g = None\<close> by (simp add: bound_inv_def)
    next
      case False
      then have "slot (funcs a ! j) \<noteq> Some p" using others 2(1) by simp
      then have "s' p = mem g p" using asyncTask_frame[OF 2(4)] by simp
      then show ?thesis using b 2 False by (simp add: bound_inv_def)
    qed
  qed
next
  case (Report j)
  from step_Report_eq[of a j g g'] st Report
  consider "g' = g"
    | "j < length (units g)" "units g ! j \<noteq> Running"
        "g' = g\<lparr>units := (units g)[j := Finished]\<rparr>"
    | e where "j < length (units g)" "units g ! j = Returned (Some e)" "gErr g = None"
        "g' = g\<lparr>gErr := Some e, ctxErr := cancel Canceled (ctxErr g),
                 units := (units g)[j := Finished]\<rparr>"
    by auto
  then show ?thesis
  proof cases
    case 1 then show ?thesis using b by simp
  next
    case 2 then show ?thesis using b by (auto simp: bound_inv_def nth_list_update)
  next
    case 3
    have len: "length (units g) = length (funcs a)" using inv by (simp add: live_inv_def)
    then have "unit_error (funcs a ! j) = Some e"
      using inv 3(1,2,3) by (auto simp: live_inv_def)
    then have "j = i" using others 3(1) len by (cases "j = i") auto
    then show ?thesis using b 3 by (auto simp: bound_inv_def)
  qed
qed (use int in auto)

lemma bound_inv_run:
  assumes i: "i < length (funcs a)"
    and d: "dest (funcs a ! i) = Some (VPtr t (Some p))"
    and f: "fst (fun' (funcs a ! i) ()) = Some v"
    and asg: "AssignableTo (TypeOf v) t"
    and others: "\<forall>j<length (funcs a). j \<noteq> i \<longrightarrow>
                   unit_error (funcs a ! j) = None \<and> slot (funcs a ! j) \<noteq> Some p"
    and run: "run a sched g0 = Returns g"
    and inv: "live_inv a g0" and b: "bound_inv i p v g0" and int: "list_all internal sched"
  shows "bound_inv i p v g"
proof -
  have "live_inv a g \<and> bound_inv i p v g"
  proof (rule run_invariant[OF run, where I="\<lambda>g. live_inv a g \<and> bound_inv i p v g"])
    show "live_inv a g0 \<and> bound_inv i p v g0" using inv b by simp
  next
    fix ev g g'
    assume ev: "ev \<in> set sched" and I: "live_inv a g \<and> bound_inv i p v g"
      and st: "step a ev g = Returns g'"
    have int': "internal ev" using ev int by (simp add: list_all_iff)
    show "live_inv a g' \<and> bound_inv i p v g'"
      using live_inv_step[OF _ int' st] bound_inv_step[OF i d f asg others _ _ int' st] I by simp
  qed
  then show ?thesis by simp
qed

lemma Go_bound:
  assumes "never_cancelled a parent sched" and "complete (length (funcs a)) sched"
    and i: "i < length (funcs a)"
    and d: "dest (funcs a ! i) = Some (VPtr t (Some p))"
    and f: "fst (fun' (funcs a ! i) ()) = Some v"
    and asg: "AssignableTo (TypeOf v) t"
    and others: "\<forall>j<length (funcs a). j \<noteq> i \<longrightarrow>
                   unit_error (funcs a ! j) = None \<and> slot (funcs a ! j) \<noteq> Some p"
  shows "\<exists>r s'. Go a parent sched s = Done r s' \<and> s' p = Some v"
proof -
  obtain g where g: "run a sched (start a parent s) = Returns g"
    and dn: "Go a parent sched s = Done (gErr g) (mem g)"
    and fin: "\<forall>j<length (funcs a). units g ! j = Finished"
    using Go_complete[OF assms(2)] by blast
  have l0: "live_inv a (start a parent s)"
    using live_inv_start assms(1) by (simp add: never_cancelled_def)
  have b0: "bound_inv i p v (start a parent s)"
    using i by (simp add: bound_inv_def start_def)
  have "bound_inv i p v g"
    using bound_inv_run[OF i d f asg others g l0 b0] assms(1) by (simp add: never_cancelled_def)
  then have "mem g p = Some v" using fin i by (simp add: bound_inv_def)
  then show ?thesis using dn by simp
qed

section \<open>Executions on a context that is done\<close>

lemma cancelled_inv_step:
  assumes inv: "cancelled_inv a e0 s g" and st: "step a ev g = Returns g'"
  shows "cancelled_inv a e0 s g'"
proof (cases ev)
  case (Check j)
  from step_Check_eq[of a j g g'] st Check
  consider "g' = g"
    | r s' where "j < length (funcs a)" "j < length (units g)" "units g ! j = Running"
        "asyncTask (ctxErr g) (dest (funcs a ! j)) (fun' (funcs a ! j)) (mem g) = Returns (r, s')"
        "g' = g\<lparr>mem := s', units := (units g)[j := Returned r]\<rparr>"
    by auto
  then show ?thesis
  proof cases
    case 1 then show ?thesis using inv by simp
  next
    case 2
    have "ctxErr g = Some e0" using inv by (simp add: cancelled_inv_def)
    then have r: "r = Some (WrapError ''async operation was cancelled: '' e0)" and s': "s' = mem g"
      using 2(4) by (auto simp: asyncTask_cancelled)
    show ?thesis using inv 2(2) unfolding cancelled_inv_def 2(5) r s'
      by (auto simp: nth_list_update)
  qed
next
  case (Report j)
  from step_Report_eq[of a j g g'] st Report
  consider "g' = g"
    | "j < length (units g)" "gErr g \<noteq> None \<or> units g ! j = Returned None"
        "g' = g\<lparr>units := (units g)[j := Finished]\<rparr>"
    | e where "j < length (units g)" "units g ! j = Returned (Some e)" "gErr g = None"
        "g' = g\<lparr>gErr := Some e, ctxErr := cancel Canceled (ctxErr g),
                 units := (units g)[j := Finished]\<rparr>"
    by auto
  then show ?thesis
  proof cases
    case 1 then show ?thesis using inv by simp
  next
    case 2
    have len: "length (units g) = length (funcs a)" using inv by (simp add: cancelled_inv_def)
    have "units g ! j \<noteq> Returned None" using inv 2(1) len by (auto simp: cancelled_inv_def)
    then have "gErr g \<noteq> None" using 2(2) by simp
    then have "gErr g = Some (WrapError ''async operation was cancelled: '' e0)"
      using inv by (auto simp: cancelled_inv_def)
    then show ?thesis using inv 2(1) unfolding cancelled_inv_def 2(3)
      by (auto simp: nth_list_update)
  next
    case 3
    have len: "length (units g) = length (funcs a)" using inv by (simp add: cancelled_inv_def)
    have e: "e = WrapError ''async operation was cancelled: '' e0"
      using inv 3(1,2) len by (auto simp: cancelled_inv_def)
    show ?thesis using inv 3(1) unfolding cancelled_inv_def 3(4) e
      by (auto simp: nth_list_update cancel_def)
  qed
next
  case Timeout
  have "ctxErr g = Some e0" using inv by (simp add: cancelled_inv_def)
  then have "g' = g" using st Timeout by (auto simp: cancel_def split: if_splits)
  then show ?thesis using inv by simp
next
  case (ParentDone e)
  have "ctxErr g = Some e0" using inv by (simp add: cancelled_inv_def)
  then have "g' = g" using st ParentDone by (auto simp: cancel_def)
  then show ?thesis using inv by simp
qed

lemma cancelled_run:
  assumes run: "run a sched g0 = Returns g" and inv: "cancelled_inv a e0 s g0"
    and ne: "funcs a \<noteq> []" and fin: "\<forall>j<length (funcs a). units g ! j = Finished"
  shows "gErr g = Some (WrapError ''async operation was cancelled: '' e0) \<and> mem g = s"
proof -
  have c: "cancelled_inv a e0 s g"
    by (rule run_invariant[OF run, where I="cancelled_inv a e0 s"])
       (use inv in \<open>auto intro: cancelled_inv_step\<close>)
  have "0 < length (funcs a)" using ne by simp
  then have "units g ! 0 = Finished" using fin by simp
  then show ?thesis using c \<open>0 < length (funcs a)\<close> by (auto simp: cancelled_inv_def)
qed

section \<open>The hypotheses, read as quantified statements\<close>

lemma others_succeed_iff:
  "others_succeed a i = (\<forall>j<length (funcs a). j \<noteq> i \<longrightarrow> unit_error (funcs a ! j) = None)"
  by (auto simp: others_succeed_def list_all_iff)

lemma unaliased_iff:
  "unaliased a i p = (\<forall>j<length (funcs a). j \<noteq> i \<longrightarrow> slot (funcs a ! j) \<noteq> Some p)"
  by (auto simp: unaliased_def list_all_iff)

lemma well_bound_cases:
  assumes "well_bound h"
  obtains t p v where "dest h = Some (VPtr t (Some p))" "fun' h () = (Some v, None)"
    "AssignableTo (TypeOf v) t"
  using assms unfolding well_bound_def
  by (auto split: option.splits val.splits prod.splits)

lemma well_bound_unit_error: "well_bound h \<Longrightarrow> unit_error h = None"
proof -
  assume "well_bound h"
  then obtain t p v where d: "dest h = Some (VPtr t (Some p))" and f: "fun' h () = (Some v, None)"
    and asg: "AssignableTo (TypeOf v) t" by (rule well_bound_cases)
  have "asyncTask None (dest h) (fun' h) (\<lambda>p. None) = Returns (None, (\<lambda>p. None)(p := Some v))"
    using d f asg by (simp add: asyncTask_bind)
  then show ?thesis using asyncTask_live_error by fastforce
qed

lemma unit_error_verbatim:
  assumes "\<not> binding_fails h"
  shows "unit_error h = snd (fun' h ())"
proof -
  obtain res err where f: "fun' h () = (res, err)" by (cases "fun' h ()")
  show ?thesis
  proof (cases "dest h \<noteq> None \<and> res \<noteq> None")
    case True
    then obtain v where v: "res = Some v" by auto
    obtain x sx where x: "assignResult (dest h) (Some v) (\<lambda>p. None) = Returns (x, sx)"
      using assignResult_Some[of "Some v" "dest h" "\<lambda>p. None"]
      by (cases "assignResult (dest h) (Some v) (\<lambda>p. None)") auto
    have "x = None" using assms True f v x by (cases x) (auto simp: binding_fails_def)
    then show ?thesis using True f v x by (simp add: unit_error_def asyncTask_def)
  next
    case False
    then show ?thesis using f by (auto simp: unit_error_def asyncTask_def)
  qed
qed

lemma asyncTask_live: "\<exists>s1. asyncTask None (dest h) (fun' h) s0 = Returns (unit_error h, s1)"
proof -
  obtain r s1 where "asyncTask None (dest h) (fun' h) s0 = Returns (r, s1)"
    using asyncTask_Returns by blast
  then show ?thesis using asyncTask_live_error by blast
qed

lemma asyncTask_skip:
  assumes "d = None \<or> fst (fn ()) = None"
  shows "asyncTask None d fn s0 = Returns (snd (fn ()), s0)"
  using assms by (cases "fn ()") (auto simp: asyncTask_def)

lemma assignResult_nil_pointer:
  "assignResult (Some (VPtr t None)) res s0
     = Returns (Some (ErrorString ''destination pointer cannot be nil''), s0)"
  by simp

lemma assignResult_not_pointer:
  "ValueOf_Kind d \<noteq> KPtr \<Longrightarrow> assignResult d res s0
     = Returns (Some (ErrorString (''destination must be a pointer, received '' @ fmt_T d
                       @ '' (kind: '' @ Kind_String (ValueOf_Kind d) @ '')'')), s0)"
  by (cases "(d, res, s0)" rule: assignResult.cases) auto

lemma asyncTask_bind_error:
  assumes "d \<noteq> None" and "fst (fn ()) = Some v" and "assignResult d (Some v) s0 = Returns (Some ae, s1)"
  shows "asyncTask None d fn s0 = Returns (Some (WrapError ''failed to assign result: '' ae), s0)"
proof -
  have "s1 = s0" using assignResult_cases[OF assms(3)] by auto
  then show ?thesis using assms by (cases "fn ()") (auto simp: asyncTask_def)
qed

section \<open>First error, frames and sole failures\<close>

lemma run_append:
  "run a (xs @ ys) g = (case run a xs g of Panics \<Rightarrow> Panics | Returns g' \<Rightarrow> run a ys g')"
  by (induction xs arbitrary: g) (auto split: result.splits)

lemma step_gErr_stable:
  "step a ev g = Returns g' \<Longrightarrow> gErr g = Some e \<Longrightarrow> gErr g' = Some e"
  by (cases ev) (auto split: if_splits result.splits stage.splits option.splits)

lemma run_gErr_stable:
  assumes "run a sched g0 = Returns g" and "gErr g0 = Some e"
  shows "gErr g = Some e"
  by (rule run_invariant[OF assms(1), where I="\<lambda>g. gErr g = Some e"])
     (use assms(2) in \<open>auto dest: step_gErr_stable\<close>)

lemma first_report_wins:
  assumes co: "complete (length (funcs a)) (pre @ Report i # post)"
    and pre: "run a pre (start a parent s) = Returns g1"
    and none: "gErr g1 = None" and i: "i < length (units g1)"
    and ret: "units g1 ! i = Returned (Some e)"
  shows "\<exists>s'. Go a parent (pre @ Report i # post) s = Done (Some e) s'"
proof -
  obtain g where g: "run a (pre @ Report i # post) (start a parent s) = Returns g"
    and d: "Go a parent (pre @ Report i # post) s = Done (gErr g) (mem g)"
    using Go_complete[OF co] by blast
  let ?g2 = "g1\<lparr>gErr := Some e, ctxErr := cancel Canceled (ctxErr g1),
                 units := (units g1)[i := Finished]\<rparr>"
  have "step a (Report i) g1 = Returns ?g2" using none i ret by simp
  then have "run a post ?g2 = Returns g" using g pre by (simp add: run_append)
  then have "gErr g = Some e" using run_gErr_stable by fastforce
  then show ?thesis using d by simp
qed

lemma Go_sole_failure_at:
  assumes "never_cancelled a parent sched" and "complete (length (funcs a)) sched"
    and "i < length (funcs a)" and "others_succeed a i"
    and "asyncTask None (dest (funcs a ! i)) (fun' (funcs a ! i)) s0 = Returns (Some e, s1)"
  shows "\<exists>s'. Go a parent sched s = Done (Some e) s'"
proof -
  have "unit_error (funcs a ! i) = Some e" using asyncTask_live_error[OF assms(5)] by simp
  then show ?thesis
    using Go_sole_failure[OF assms(1,2,3)] assms(4) by (simp add: others_succeed_iff)
qed

lemma Go_frame:
  assumes "Go a parent sched s = Done r s'"
    and "\<forall>j<length (funcs a). \<forall>c s0 r s1.
           asyncTask c (dest (funcs a ! j)) (fun' (funcs a ! j)) s0 = Returns (r, s1) \<longrightarrow> s1 p = s0 p"
  shows "s' p = s p"
proof -
  obtain g where g: "run a sched (start a parent s) = Returns g" using run_Returns by blast
  then have "s' = mem g" using assms(1) by (auto simp: Go_def split: if_splits)
  then show ?thesis using run_frame[OF g assms(2)] by (simp add: start_def)
qed

lemma Go_frame_unit:
  assumes "Go a parent sched s = Done r s'" and "i < length (funcs a)" and "unaliased a i p"
    and "\<forall>c s0 r s1. asyncTask c (dest (funcs a ! i)) (fun' (funcs a ! i)) s0 = Returns (r, s1)
           \<longrightarrow> s1 p = s0 p"
  shows "s' p = s p"
proof (rule Go_frame[OF assms(1)], intro allI impI)
  fix j c s0 r s1
  assume j: "j < length (funcs a)"
    and t: "asyncTask c (dest (funcs a ! j)) (fun' (funcs a ! j)) s0 = Returns (r, s1)"
  show "s1 p = s0 p"
  proof (cases "j = i")
    case True then show ?thesis using assms(4) t by blast
  next
    case False
    then have "slot (funcs a ! j) \<noteq> Some p" using assms(3) j by (simp add: unaliased_iff)
    then show ?thesis using asyncTask_frame[OF t] by simp
  qed
qed

lemma Go_success_frame:
  assumes nc: "never_cancelled a parent sched" and co: "complete (length (funcs a)) sched"
    and i: "i < length (funcs a)" and os: "others_succeed a i"
    and u: "\<forall>s0. asyncTask None (dest (funcs a ! i)) (fun' (funcs a ! i)) s0 = Returns (None, s0)"
  shows "\<exists>s'. Go a parent sched s = Done None s' \<and> (\<forall>p. unaliased a i p \<longrightarrow> s' p = s p)"
proof -
  have "unit_error (funcs a ! i) = None" using asyncTask_live_error u by metis
  then have "\<forall>j<length (funcs a). unit_error (funcs a ! j) = None"
    using os by (auto simp: others_succeed_iff)
  then obtain s' where g: "Go a parent sched s = Done None s'"
    using Go_live_success[OF nc co] by blast
  have w: "\<forall>c s0 r s1. asyncTask c (dest (funcs a ! i)) (fun' (funcs a ! i)) s0 = Returns (r, s1)
           \<longrightarrow> s1 = s0"
  proof (intro allI impI)
    fix c s0 r s1
    assume t: "asyncTask c (dest (funcs a ! i)) (fun' (funcs a ! i)) s0 = Returns (r, s1)"
    show "s1 = s0"
    proof (cases c)
      case None then show ?thesis using t u by simp
    next
      case (Some ce) then show ?thesis using t by (simp add: asyncTask_cancelled)
    qed
  qed
  have "\<forall>p. unaliased a i p \<longrightarrow> s' p = s p"
  proof (intro allI impI)
    fix p assume "unaliased a i p"
    from Go_frame_unit[OF g i this] w show "s' p = s p" by metis
  qed
  then show ?thesis using g by blast
qed

section \<open>Deadlines and cancelled contexts\<close>

lemma cancelled_inv_start:
  "initial_ctx a parent = Some e0 \<Longrightarrow> cancelled_inv a e0 s (start a parent s)"
  by (simp add: cancelled_inv_def start_def)

lemma Go_cancelled:
  assumes "initial_ctx a parent = Some e0" and "funcs a \<noteq> []"
    and "complete (length (funcs a)) sched"
  shows "Go a parent sched s = Done (Some (WrapError ''async operation was cancelled: '' e0)) s"
proof -
  obtain g where g: "run a sched (start a parent s) = Returns g"
    and d: "Go a parent sched s = Done (gErr g) (mem g)"
    and fin: "\<forall>j<length (funcs a). units g ! j = Finished"
    using Go_complete[OF assms(3)] by blast
  show ?thesis
    using cancelled_run[OF g cancelled_inv_start[OF assms(1)] assms(2) fin] d by simp
qed



section \<open>The concrete batches\<close>

lemma ex_funcs: "funcs example_batch =
   [\<lparr>dest = Some (VPtr TInt (Some 0)), fun' = returning (Some (VInt 42)) None\<rparr>,
    \<lparr>dest = Some (VPtr TString (Some 1)), fun' = returning (Some (VString ''hello'')) None\<rparr>]"
  by (simp add: example_batch_def Task_def RunInAsync_def)

lemma failing_funcs: "funcs failing_batch =
   [\<lparr>dest = Some (VPtr TInt (Some 0)), fun' = returning None (Some (ErrorString ''test error''))\<rparr>,
    \<lparr>dest = Some (VPtr TString (Some 1)), fun' = returning (Some (VString ''hello'')) None\<rparr>]"
  by (simp add: failing_batch_def Task_def RunInAsync_def)


lemma single_task:
  "funcs (Task RunInAsync d fn) = [\<lparr>dest = d, fun' = fn\<rparr>]"
  "timeout (Task RunInAsync d fn) = None"
  by (simp_all add: Task_def RunInAsync_def)

lemma single_schedule:
  "never_cancelled (Task RunInAsync d fn) None [Check 0, Report 0]"
  "complete (length (funcs (Task RunInAsync d fn))) [Check 0, Report 0]"
  "others_succeed (Task RunInAsync d fn) 0"
  "unaliased (Task RunInAsync d fn) 0 p"
  by (simp_all add: never_cancelled_def initial_ctx_def single_task complete_def
      others_succeed_def unaliased_def)

lemma racing_funcs:
  "funcs racing_batch =
     [\<lparr>dest = Some (VPtr TInt (Some 0)), fun' = returning None (Some (ErrorString ''test error''))\<rparr>]"
  "timeout racing_batch = Some 50000000"
  by (simp_all add: racing_batch_def Task_def WithTimeout_def RunInAsync_def)

lemma rival_funcs:
  "funcs rival_batch =
     [\<lparr>dest = Some (VPtr TInt None), fun' = returning (Some (VInt 42)) None\<rparr>,
      \<lparr>dest = Some (VPtr TInt (Some 0)), fun' = returning None (Some (ErrorString ''test error''))\<rparr>]"
  "timeout rival_batch = None"
  by (simp_all add: rival_batch_def Task_def RunInAsync_def)

section \<open>Wait joins: Go returns exactly on complete schedules\<close>

lemma step_Running_other:
  "step a ev g = Returns g' \<Longrightarrow> ev \<noteq> Check i \<Longrightarrow> i < length (units g) \<Longrightarrow> units g ! i = Running
     \<Longrightarrow> units g' ! i = Running"
  by (cases ev) (auto simp: nth_list_update split: if_splits result.splits stage.splits option.splits)

lemma step_not_Finished:
  "step a ev g = Returns g' \<Longrightarrow> ev \<noteq> Report i \<Longrightarrow> i < length (units g) \<Longrightarrow> units g ! i \<noteq> Finished
     \<Longrightarrow> units g' ! i \<noteq> Finished"
  by (cases ev) (auto simp: nth_list_update split: if_splits result.splits stage.splits option.splits)

lemma run_Finished_Report:
  "run a evs g1 = Returns g \<Longrightarrow> i < length (units g1) \<Longrightarrow> units g1 ! i \<noteq> Finished
     \<Longrightarrow> units g ! i = Finished \<Longrightarrow> Report i \<in> set evs"
proof (induction evs arbitrary: g1)
  case (Cons ev evs)
  obtain g2 where g2: "step a ev g1 = Returns g2" using step_Returns by blast
  have r: "run a evs g2 = Returns g" using Cons.prems(1) g2 by simp
  have l: "i < length (units g2)" using step_length[OF g2] Cons.prems(2) by simp
  show ?case
  proof (cases "ev = Report i")
    case False
    then have "units g2 ! i \<noteq> Finished" using step_not_Finished[OF g2] Cons.prems by blast
    then show ?thesis using Cons.IH[OF r l] Cons.prems(4) by simp
  qed simp
qed simp

lemma run_Finished_finishes:
  "run a sched g0 = Returns g \<Longrightarrow> i < length (units g0) \<Longrightarrow> units g0 ! i = Running
     \<Longrightarrow> units g ! i = Finished \<Longrightarrow> finishes i sched"
proof (induction sched arbitrary: g0)
  case (Cons ev evs)
  obtain g1 where g1: "step a ev g0 = Returns g1" using step_Returns by blast
  have r: "run a evs g1 = Returns g" using Cons.prems(1) g1 by simp
  have l: "i < length (units g1)" using step_length[OF g1] Cons.prems(2) by simp
  show ?case
  proof (cases "ev = Check i")
    case True
    have "units g1 ! i \<noteq> Finished"
      using g1 True Cons.prems(2,3) by (auto simp: nth_list_update split: if_splits result.splits)
    then have "Report i \<in> set evs" using run_Finished_Report[OF r l] Cons.prems(4) by simp
    then show ?thesis using True by simp
  next
    case False
    then have "units g1 ! i = Running" using step_Running_other[OF g1] Cons.prems by blast
    then show ?thesis using Cons.IH[OF r l] Cons.prems(4) False by simp
  qed
qed simp

lemma Go_not_Crashed: "Go a parent sched s \<noteq> Crashed"
proof -
  obtain g where "run a sched (start a parent s) = Returns g" using run_Returns by blast
  then show ?thesis by (simp add: Go_def)
qed

lemma Go_Blocked_iff:
  "(Go a parent sched s = Blocked) = (\<not> complete (length (funcs a)) sched)"
proof -
  obtain g where g: "run a sched (start a parent s) = Returns g" using run_Returns by blast
  have len: "length (units g) = length (funcs a)" using run_length[OF g] start_length by simp
  have b: "(Go a parent sched s = Blocked) = (\<not> list_all (\<lambda>u. u = Finished) (units g))"
    using g by (simp add: Go_def)
  have "list_all (\<lambda>u. u = Finished) (units g) = complete (length (funcs a)) sched"
  proof
    assume fin: "list_all (\<lambda>u. u = Finished) (units g)"
    have "\<forall>i<length (funcs a). finishes i sched"
    proof (intro allI impI)
      fix i assume i: "i < length (funcs a)"
      then have "units g ! i = Finished" using fin len by (simp add: list_all_length)
      moreover have "units (start a parent s) ! i = Running" using i by (simp add: start_def)
      ultimately show "finishes i sched"
        using run_Finished_finishes[OF g] i start_length by simp
    qed
    then show "complete (length (funcs a)) sched" by (simp add: complete_def list_all_iff)
  next
    assume "complete (length (funcs a)) sched"
    then show "list_all (\<lambda>u. u = Finished) (units g)" using run_complete[OF g start_length] by simp
  qed
  then show ?thesis using b by simp
qed

section \<open>The first error observed\<close>

lemma run_after: "run a evs (start a parent s) = Returns (after a parent s evs)"
proof -
  obtain g where "run a evs (start a parent s) = Returns g" using run_Returns by blast
  then show ?thesis by (simp add: after_def)
qed

lemma step_reported_None:
  "step a ev g = Returns g' \<Longrightarrow> reported ev g = None \<Longrightarrow> gErr g' = gErr g"
  by (cases ev) (auto split: if_splits result.splits stage.splits option.splits)

lemma step_reported_Some:
  "step a ev g = Returns g' \<Longrightarrow> reported ev g = Some e \<Longrightarrow> gErr g = None \<Longrightarrow> gErr g' = Some e"
  by (cases ev) (auto split: if_splits result.splits stage.splits option.splits)

lemma run_first_error:
  "run a sched g0 = Returns g \<Longrightarrow> gErr g0 = None \<Longrightarrow> gErr g = first_error a sched g0"
proof (induction sched arbitrary: g0)
  case (Cons ev evs)
  obtain g1 where g1: "step a ev g0 = Returns g1" using step_Returns by blast
  have r: "run a evs g1 = Returns g" using Cons.prems(1) g1 by simp
  show ?case
  proof (cases "reported ev g0")
    case None
    then have "gErr g1 = None" using step_reported_None[OF g1] Cons.prems(2) by simp
    then show ?thesis using Cons.IH[OF r] None g1 by simp
  next
    case (Some e)
    then have "gErr g1 = Some e" using step_reported_Some[OF g1] Cons.prems(2) by simp
    then have "gErr g = Some e" using run_gErr_stable[OF r] by simp
    then show ?thesis using Some by simp
  qed
qed simp

lemma Go_first_error_observed:
  assumes "complete (length (funcs a)) sched"
  shows "\<exists>s'. Go a parent sched s = Done (first_error a sched (start a parent s)) s'"
proof -
  obtain g where g: "run a sched (start a parent s) = Returns g"
    and d: "Go a parent sched s = Done (gErr g) (mem g)"
    using Go_complete[OF assms] by blast
  have "gErr g = first_error a sched (start a parent s)"
    using run_first_error[OF g] by (simp add: start_def)
  then show ?thesis using d by simp
qed

lemma step_Check_live:
  assumes "i < length (funcs a)" and "i < length (units g)" and "units g ! i = Running"
    and "ctxErr g = None"
  shows "\<exists>g'. step a (Check i) g = Returns g' \<and> units g' ! i = Returned (unit_error (funcs a ! i))
           \<and> gErr g' = gErr g \<and> length (units g') = length (units g)"
proof -
  obtain s1 where "asyncTask None (dest (funcs a ! i)) (fun' (funcs a ! i)) (mem g)
                     = Returns (unit_error (funcs a ! i), s1)"
    using asyncTask_live by blast
  then show ?thesis using assms by simp
qed

lemma step_pending:
  assumes "step a ev g = Returns g'" and "i < length (units g)"
    and "units g ! i = Returned (Some x) \<or> gErr g \<noteq> None"
  shows "units g' ! i = Returned (Some x) \<or> gErr g' \<noteq> None"
proof (cases "gErr g")
  case (Some e)
  then show ?thesis using step_gErr_stable[OF assms(1)] by simp
next
  case None
  then have u: "units g ! i = Returned (Some x)" using assms(3) by simp
  show ?thesis
  proof (cases ev)
    case (Check j)
    then show ?thesis using step_Check_eq[of a j g g'] assms(1,2) u None
      by (auto simp: nth_list_update)
  next
    case (Report j)
    then show ?thesis using step_Report_eq[of a j g g'] assms(1,2) u None
      by (auto simp: nth_list_update)
  next
    case Timeout
    then show ?thesis using assms(1) u by (auto split: if_splits)
  next
    case (ParentDone e)
    then show ?thesis using assms(1) u by auto
  qed
qed

lemma run_pending:
  assumes "run a evs g0 = Returns g" and "i < length (units g0)"
    and "units g0 ! i = Returned (Some x) \<or> gErr g0 \<noteq> None"
  shows "units g ! i = Returned (Some x) \<or> gErr g \<noteq> None"
proof -
  have "i < length (units g) \<and> (units g ! i = Returned (Some x) \<or> gErr g \<noteq> None)"
  proof (rule run_invariant[OF assms(1),
        where I="\<lambda>g. i < length (units g) \<and> (units g ! i = Returned (Some x) \<or> gErr g \<noteq> None)"])
    show "i < length (units g0) \<and> (units g0 ! i = Returned (Some x) \<or> gErr g0 \<noteq> None)"
      using assms(2,3) by simp
  next
    fix ev g g'
    assume "i < length (units g) \<and> (units g ! i = Returned (Some x) \<or> gErr g \<noteq> None)"
      and st: "step a ev g = Returns g'"
    then show "i < length (units g') \<and> (units g' ! i = Returned (Some x) \<or> gErr g' \<noteq> None)"
      using step_pending[OF st] step_length[OF st] by simp
  qed
  then show ?thesis by simp
qed

lemma Go_failure_reported:
  assumes sp: "sched = pre @ Check i # rest" and i: "i < length (funcs a)"
    and ru: "units (after a parent s pre) ! i = Running"
    and live: "ctxErr (after a parent s pre) = None"
    and ue: "unit_error (funcs a ! i) = Some x"
    and co: "complete (length (funcs a)) sched"
  shows "\<exists>y s'. Go a parent sched s = Done (Some y) s'"
proof -
  let ?g1 = "after a parent s pre"
  have len1: "length (units ?g1) = length (funcs a)"
    using run_length[OF run_after] start_length by simp
  obtain g1' where st: "step a (Check i) ?g1 = Returns g1'"
    and u: "units g1' ! i = Returned (Some x)" and l: "length (units g1') = length (units ?g1)"
    using step_Check_live[OF i _ ru live] len1 i ue by auto
  obtain g where g: "run a sched (start a parent s) = Returns g"
    and d: "Go a parent sched s = Done (gErr g) (mem g)"
    and fin: "\<forall>j<length (funcs a). units g ! j = Finished"
    using Go_complete[OF co] by blast
  have "run a rest g1' = Returns g" using g sp st run_after[of a pre parent s]
    by (simp add: run_append)
  then have "units g ! i = Returned (Some x) \<or> gErr g \<noteq> None"
    using run_pending[of a rest g1' g i x] u l len1 i by simp
  then have "gErr g \<noteq> None" using fin i by auto
  then show ?thesis using d by auto
qed

lemma Go_first_failure:
  assumes sp: "sched = pre @ Check i # mid @ Report i # post"
    and ff: "first_failure a parent s i pre mid"
    and ue: "unit_error (funcs a ! i) = Some x"
    and co: "complete (length (funcs a)) sched"
  shows "\<exists>s'. Go a parent sched s = Done (Some x) s'"
proof -
  let ?g1 = "after a parent s pre"
  let ?g2 = "after a parent s (pre @ Check i # mid)"
  have i: "i < length (funcs a)" and ru: "units ?g1 ! i = Running" and live: "ctxErr ?g1 = None"
    and none: "gErr ?g2 = None"
    using ff by (simp_all add: first_failure_def)
  have len1: "length (units ?g1) = length (funcs a)"
    using run_length[OF run_after] start_length by simp
  have len2: "length (units ?g2) = length (funcs a)"
    using run_length[OF run_after] start_length by simp
  obtain g1' where st: "step a (Check i) ?g1 = Returns g1'"
    and u: "units g1' ! i = Returned (Some x)" and l: "length (units g1') = length (units ?g1)"
    using step_Check_live[OF i _ ru live] len1 i ue by auto
  have "run a (pre @ Check i # mid) (start a parent s) = Returns ?g2" by (rule run_after)
  then have "run a mid g1' = Returns ?g2" using st run_after[of a pre parent s]
    by (simp add: run_append)
  then have "units ?g2 ! i = Returned (Some x) \<or> gErr ?g2 \<noteq> None"
    using run_pending[of a mid g1' ?g2 i x] u l len1 i by simp
  then have u2: "units ?g2 ! i = Returned (Some x)" using none by simp
  have "\<exists>s'. Go a parent ((pre @ Check i # mid) @ Report i # post) s = Done (Some x) s'"
  proof (rule first_report_wins[where ?g1.0="?g2"])
    show "complete (length (funcs a)) ((pre @ Check i # mid) @ Report i # post)"
      using co sp by simp
    show "run a (pre @ Check i # mid) (start a parent s) = Returns ?g2" by (rule run_after)
    show "gErr ?g2 = None" by (rule none)
    show "i < length (units ?g2)" using len2 i by simp
    show "units ?g2 ! i = Returned (Some x)" by (rule u2)
  qed
  then show ?thesis using sp by simp
qed


section \<open>Timed schedules\<close>



section \<open>Joined executions of well-bound and of mismatching tasks\<close>

lemma fan_out_joined:
  assumes nc: "never_cancelled a parent sched" and co: "complete (length (funcs a)) sched"
    and wb: "list_all well_bound (funcs a)"
    and di: "distinct (map slot (funcs a))"
  shows "\<exists>s'. Go a parent sched s = Done None s' \<and>
           (\<forall>i<length (funcs a). \<exists>p. slot (funcs a ! i) = Some p \<and>
                s' p = fst (fun' (funcs a ! i) ()))"
proof -
  have ue: "\<forall>j<length (funcs a). unit_error (funcs a ! j) = None"
    using wb by (simp add: list_all_length well_bound_unit_error)
  obtain s' where s': "Go a parent sched s = Done None s'"
    using Go_live_success[OF nc co ue] by blast
  have "\<forall>i<length (funcs a). \<exists>p. slot (funcs a ! i) = Some p \<and> s' p = fst (fun' (funcs a ! i) ())"
  proof (intro allI impI)
    fix i assume i: "i < length (funcs a)"
    then have "well_bound (funcs a ! i)" using wb by (simp add: list_all_length)
    then obtain t p v where d: "dest (funcs a ! i) = Some (VPtr t (Some p))"
      and f: "fun' (funcs a ! i) () = (Some v, None)" and asg: "AssignableTo (TypeOf v) t"
      by (rule well_bound_cases)
    have sl: "slot (funcs a ! i) = Some p" using d by (simp add: slot_def)
    have others: "\<forall>j<length (funcs a). j \<noteq> i \<longrightarrow>
                   unit_error (funcs a ! j) = None \<and> slot (funcs a ! j) \<noteq> Some p"
    proof (intro allI impI)
      fix j assume j: "j < length (funcs a)" and ne: "j \<noteq> i"
      have "slot (funcs a ! j) \<noteq> slot (funcs a ! i)"
        using di i j ne by (auto simp: distinct_conv_nth)
      then show "unit_error (funcs a ! j) = None \<and> slot (funcs a ! j) \<noteq> Some p"
        using ue i j sl by simp
    qed
    have "fst (fun' (funcs a ! i) ()) = Some v" using f by simp
    from Go_bound[OF nc co i d this asg others, of s]
    have "s' p = Some v" using s' by simp
    then show "\<exists>p. slot (funcs a ! i) = Some p \<and> s' p = fst (fun' (funcs a ! i) ())"
      using sl f by simp
  qed
  then show ?thesis using s' by blast
qed

lemma type_mismatch_joined:
  assumes nc: "never_cancelled a parent sched" and co: "complete (length (funcs a)) sched"
    and i: "i < length (funcs a)"
    and d: "dest (funcs a ! i) = Some (VPtr t (Some p))"
    and f: "fun' (funcs a ! i) () = (Some v, None)"
    and na: "\<not> AssignableTo (TypeOf v) t"
    and os: "others_succeed a i" and ua: "unaliased a i p"
  shows "\<exists>s'. Go a parent sched s
            = Done (Some (WrapError ''failed to assign result: ''
                 (ErrorString (''type mismatch: cannot assign '' @ Type_String (TypeOf v)
                    @ '' to '' @ Type_String t)))) s' \<and> s' p = s p"
proof -
  have u: "\<And>s0. asyncTask None (dest (funcs a ! i)) (fun' (funcs a ! i)) s0
            = Returns (Some (WrapError ''failed to assign result: ''
                 (ErrorString (''type mismatch: cannot assign '' @ Type_String (TypeOf v)
                    @ '' to '' @ Type_String t))), s0)"
    using d f na by (simp add: asyncTask_def)
  obtain s' where g: "Go a parent sched s
            = Done (Some (WrapError ''failed to assign result: ''
                 (ErrorString (''type mismatch: cannot assign '' @ Type_String (TypeOf v)
                    @ '' to '' @ Type_String t)))) s'"
    using Go_sole_failure_at[OF nc co i os u] by blast
  have "\<forall>c s0 r s1. asyncTask c (dest (funcs a ! i)) (fun' (funcs a ! i)) s0 = Returns (r, s1)
           \<longrightarrow> s1 p = s0 p"
  proof (intro allI impI)
    fix c s0 r s1
    assume "asyncTask c (dest (funcs a ! i)) (fun' (funcs a ! i)) s0 = Returns (r, s1)"
    from asyncTask_write[OF this] show "s1 p = s0 p" using d f na by auto
  qed
  then have "s' p = s p" using Go_frame_unit[OF g i ua] by simp
  then show ?thesis using g by blast
qed

lemma run_empty:
  assumes "funcs a = []" and "run a sched g0 = Returns g" and "units g0 = []"
  shows "units g = [] \<and> gErr g = gErr g0 \<and> mem g = mem g0"
proof (rule run_invariant[OF assms(2), where I="\<lambda>g. units g = [] \<and> gErr g = gErr g0 \<and> mem g = mem g0"])
  fix ev g g'
  assume "units g = [] \<and> gErr g = gErr g0 \<and> mem g = mem g0" and "step a ev g = Returns g'"
  then show "units g' = [] \<and> gErr g' = gErr g0 \<and> mem g' = mem g0"
    using assms(1) by (cases ev) (auto split: if_splits)
qed (use assms in simp)

section \<open>The claims\<close>

text \<open>
  Claim C1 (fan-out correctness). Take a batch of any size in which every task has a
  non-nil pointer destination and an operation that succeeds with a non-nil value
  assignable to the pointed-to type, the destinations point to distinct variables, and
  the context is never cancelled. \<^verbatim>\<open>Go\<close> returns exactly when every unit has been
  checked and reported, whatever the order; it then returns nil, and every destination
  variable holds exactly the value its operation produced.
\<close>

theorem Go_fan_out:
  assumes nc: "never_cancelled a parent sched"
    and wb: "list_all well_bound (funcs a)"
    and di: "distinct (map slot (funcs a))"
  shows "(Go a parent sched s = Blocked) = (\<not> complete (length (funcs a)) sched) \<and>
         (complete (length (funcs a)) sched \<longrightarrow>
            (\<exists>s'. Go a parent sched s = Done None s' \<and>
               (\<forall>i<length (funcs a). \<exists>p. slot (funcs a ! i) = Some p \<and>
                    s' p = fst (fun' (funcs a ! i) ()))))"
  using Go_Blocked_iff fan_out_joined[OF nc _ wb di] by blast

theorem Go_fan_out_witness:
  "never_cancelled example_batch None [Check 1, Check 0, Report 0, Report 1] \<and>
   complete (length (funcs example_batch)) [Check 1, Check 0, Report 0, Report 1] \<and>
   list_all well_bound (funcs example_batch) \<and>
   distinct (map slot (funcs example_batch)) \<and>
   (\<exists>s'. Go example_batch None [Check 1, Check 0, Report 0, Report 1] zeroed = Done None s' \<and>
      s' 0 = Some (VInt 42) \<and> s' 1 = Some (VString ''hello'')) \<and>
   never_cancelled example_batch None [Check 1, Check 0, Report 0] \<and>
   Go example_batch None [Check 1, Check 0, Report 0] zeroed = Blocked"
proof -
  let ?S = "[Check 1, Check 0, Report 0, Report 1]"
  let ?S' = "[Check 1, Check 0, Report 0]"
  have nc: "never_cancelled example_batch None ?S"
    and nc': "never_cancelled example_batch None ?S'"
    by (simp_all add: never_cancelled_def initial_ctx_def example_batch_def Task_def RunInAsync_def)
  have co: "complete (length (funcs example_batch)) ?S"
    and nco: "\<not> complete (length (funcs example_batch)) ?S'"
    by (simp_all add: ex_funcs complete_def upt_rec)
  have wb: "list_all well_bound (funcs example_batch)"
    by (simp add: ex_funcs well_bound_def returning_def AssignableTo_def)
  have di: "distinct (map slot (funcs example_batch))"
    by (simp add: ex_funcs slot_def)
  obtain s' where go: "Go example_batch None ?S zeroed = Done None s'"
    and sl: "\<forall>i<length (funcs example_batch). \<exists>p. slot (funcs example_batch ! i) = Some p \<and>
                s' p = fst (fun' (funcs example_batch ! i) ())"
    using Go_fan_out[OF nc wb di, THEN conjunct2, of zeroed] co by blast
  have "s' 0 = Some (VInt 42)" using sl[rule_format, of 0] by (simp add: ex_funcs slot_def returning_def)
  moreover have "s' 1 = Some (VString ''hello'')"
    using sl[rule_format, of 1] by (simp add: ex_funcs slot_def returning_def)
  moreover have "Go example_batch None ?S' zeroed = Blocked"
    using Go_fan_out[OF nc' wb di, THEN conjunct1, of zeroed] nco by simp
  ultimately show ?thesis using nc nc' co wb di go by blast
qed

text \<open>
  Claim C2 (first-error propagation). For every batch, caller's context and schedule:
  \<^verbatim>\<open>Go\<close> returns exactly when every unit has been checked and reported, and what it
  returns is the first error any unit handed to the group, nil if there was none. A
  unit whose operation returns an error \<open>e\<close> and whose binding does not fail returns \<open>e\<close>
  itself on a live context; if its check finds the context live, \<^verbatim>\<open>Go\<close> returns a
  non-nil error, and it returns \<open>e\<close> when no error was recorded before this unit reports,
  whatever happens to the context after the check. On a context never cancelled, \<^verbatim>\<open>Go\<close>
  returns \<open>e\<close> when no other unit fails, and nil when no unit fails.
\<close>

theorem Go_first_error:
  "(Go a parent sched s = Blocked) = (\<not> complete (length (funcs a)) sched) \<and>
   (complete (length (funcs a)) sched \<longrightarrow>
      (\<exists>s'. Go a parent sched s = Done (first_error a sched (start a parent s)) s')) \<and>
   (i < length (funcs a) \<and> snd (fun' (funcs a ! i) ()) = Some e \<and>
    \<not> binding_fails (funcs a ! i) \<longrightarrow>
      (\<exists>s1. asyncTask None (dest (funcs a ! i)) (fun' (funcs a ! i)) s0 = Returns (Some e, s1)) \<and>
      (sched = pre @ Check i # rest \<and> units (after a parent s pre) ! i = Running \<and>
       ctxErr (after a parent s pre) = None \<and> complete (length (funcs a)) sched \<longrightarrow>
         (\<exists>y s'. Go a parent sched s = Done (Some y) s')) \<and>
      (sched = pre @ Check i # mid @ Report i # post \<and> first_failure a parent s i pre mid \<and>
       complete (length (funcs a)) sched \<longrightarrow>
         (\<exists>s'. Go a parent sched s = Done (Some e) s')) \<and>
      (never_cancelled a parent sched \<and> others_succeed a i \<and>
       complete (length (funcs a)) sched \<longrightarrow>
         (\<exists>s'. Go a parent sched s = Done (Some e) s'))) \<and>
   (never_cancelled a parent sched \<and> complete (length (funcs a)) sched \<and>
    (\<forall>j<length (funcs a). unit_error (funcs a ! j) = None) \<longrightarrow>
      (\<exists>s'. Go a parent sched s = Done None s'))"
proof (intro conjI impI)
  show "(Go a parent sched s = Blocked) = (\<not> complete (length (funcs a)) sched)"
    by (rule Go_Blocked_iff)
next
  assume "complete (length (funcs a)) sched"
  then show "\<exists>s'. Go a parent sched s = Done (first_error a sched (start a parent s)) s'"
    by (rule Go_first_error_observed)
next
  assume h: "i < length (funcs a) \<and> snd (fun' (funcs a ! i) ()) = Some e \<and>
    \<not> binding_fails (funcs a ! i)"
  then have ue: "unit_error (funcs a ! i) = Some e" using unit_error_verbatim by simp
  then show "\<exists>s1. asyncTask None (dest (funcs a ! i)) (fun' (funcs a ! i)) s0
                    = Returns (Some e, s1)"
    using asyncTask_live[of "funcs a ! i" s0] by simp
  {
    assume "sched = pre @ Check i # rest \<and> units (after a parent s pre) ! i = Running \<and>
       ctxErr (after a parent s pre) = None \<and> complete (length (funcs a)) sched"
    then show "\<exists>y s'. Go a parent sched s = Done (Some y) s'"
      using Go_failure_reported[of sched pre i rest a parent s e] h ue by blast
  }
  {
    assume "sched = pre @ Check i # mid @ Report i # post \<and> first_failure a parent s i pre mid \<and>
       complete (length (funcs a)) sched"
    then show "\<exists>s'. Go a parent sched s = Done (Some e) s'"
      using Go_first_failure[of sched pre i mid post a parent s e] ue by blast
  }
  {
    assume "never_cancelled a parent sched \<and> others_succeed a i \<and>
       complete (length (funcs a)) sched"
    then show "\<exists>s'. Go a parent sched s = Done (Some e) s'"
      using Go_sole_failure[of a parent sched i e s] h ue by (auto simp: others_succeed_iff)
  }
next
  assume "never_cancelled a parent sched \<and> complete (length (funcs a)) sched \<and>
    (\<forall>j<length (funcs a). unit_error (funcs a ! j) = None)"
  then show "\<exists>s'. Go a parent sched s = Done None s'"
    using Go_live_success[of a parent sched s] by simp
qed

theorem Go_first_error_witness:
  "complete (length (funcs racing_batch)) [Check 0, Timeout, Report 0] \<and>
   snd (fun' (funcs racing_batch ! 0) ()) = Some (ErrorString ''test error'') \<and>
   \<not> binding_fails (funcs racing_batch ! 0) \<and>
   first_failure racing_batch None zeroed 0 [] [Timeout] \<and>
   (\<exists>s'. Go racing_batch None [Check 0, Timeout, Report 0] zeroed
            = Done (Some (ErrorString ''test error'')) s') \<and>
   first_error racing_batch [Check 0, Timeout, Report 0] (start racing_batch None zeroed)
     = Some (ErrorString ''test error'') \<and>
   Go racing_batch None [Check 0, Timeout] zeroed = Blocked"
proof -
  let ?S = "[Check 0, Timeout, Report 0]"
  have co: "complete (length (funcs racing_batch)) ?S"
    and nco: "\<not> complete (length (funcs racing_batch)) [Check 0, Timeout]"
    by (simp_all add: racing_funcs complete_def)
  have e: "snd (fun' (funcs racing_batch ! 0) ()) = Some (ErrorString ''test error'')"
    by (simp add: racing_funcs returning_def)
  have bf: "\<not> binding_fails (funcs racing_batch ! 0)"
    by (simp add: racing_funcs binding_fails_def returning_def)
  have ff: "first_failure racing_batch None zeroed 0 [] [Timeout]"
    by (simp add: first_failure_def after_def start_def initial_ctx_def racing_funcs
        asyncTask_def returning_def cancel_def)
  have fe: "first_error racing_batch ?S (start racing_batch None zeroed)
              = Some (ErrorString ''test error'')"
    by (simp add: start_def initial_ctx_def racing_funcs asyncTask_def returning_def cancel_def)
  have 1: "\<exists>s'. Go racing_batch None ?S zeroed = Done (Some (ErrorString ''test error'')) s'"
    using Go_first_error[of racing_batch None ?S zeroed 0 "ErrorString ''test error''" _ "[]" _
        "[Timeout]" "[]", THEN conjunct2, THEN conjunct2, THEN conjunct1] co e bf ff
    by (simp add: racing_funcs)
  have 2: "Go racing_batch None [Check 0, Timeout] zeroed = Blocked"
    using Go_first_error[of racing_batch None "[Check 0, Timeout]" zeroed, THEN conjunct1] nco
    by simp
  show ?thesis using co e bf ff fe 1 2 by blast
qed



text \<open>
  Claim C4 (pre-cancelled context). With a caller's context that is already done with
  error \<open>ce\<close>, a non-empty batch returns exactly when every unit has been checked and
  reported, and it returns, whatever its operations return, the cancellation error that
  wraps \<open>ce\<close>, with memory untouched. A unit that finds the context done at its check
  returns that error and does not process the result of its operation.
\<close>

theorem Go_pre_cancelled:
  assumes "funcs a \<noteq> []"
  shows "Go a (Some ce) sched s
           = (if complete (length (funcs a)) sched
              then Done (Some (WrapError ''async operation was cancelled: '' ce)) s
              else Blocked) \<and>
         Unwrap (WrapError ''async operation was cancelled: '' ce) = Some ce \<and>
         asyncTask (Some ce) dst fn s0
           = Returns (Some (WrapError ''async operation was cancelled: '' ce), s0)"
  using Go_cancelled[OF _ assms, of "Some ce" ce sched s] Go_Blocked_iff[of a "Some ce" sched s]
  by (simp add: initial_ctx_def asyncTask_cancelled)

theorem Go_pre_cancelled_witness:
  "funcs example_batch \<noteq> [] \<and>
   Go example_batch (Some Canceled) [Check 0, Check 1, Report 1, Report 0] zeroed
     = Done (Some (WrapError ''async operation was cancelled: '' Canceled)) zeroed \<and>
   Go example_batch (Some Canceled) [Check 0, Check 1, Report 1] zeroed = Blocked"
proof -
  have ne: "funcs example_batch \<noteq> []" by (simp add: ex_funcs)
  have co: "complete (length (funcs example_batch)) [Check 0, Check 1, Report 1, Report 0]"
    and nco: "\<not> complete (length (funcs example_batch)) [Check 0, Check 1, Report 1]"
    by (simp_all add: ex_funcs complete_def upt_rec)
  have 1: "Go example_batch (Some Canceled) [Check 0, Check 1, Report 1, Report 0] zeroed
     = Done (Some (WrapError ''async operation was cancelled: '' Canceled)) zeroed"
    using Go_pre_cancelled[OF ne, THEN conjunct1, of Canceled _ zeroed] co by simp
  have 2: "Go example_batch (Some Canceled) [Check 0, Check 1, Report 1] zeroed = Blocked"
    using Go_pre_cancelled[OF ne, THEN conjunct1, of Canceled _ zeroed] nco by simp
  show ?thesis using ne 1 2 by blast
qed

text \<open>
  Claim C5 (destination validation), as stated, fails: a nil pointer destination, or a
  non-pointer destination, is accepted without any error when the operation returns a
  nil value, because the unit calls \<^verbatim>\<open>assignResult\<close> only when destination and result
  are both non-nil.
\<close>

theorem Go_destination_unchecked_counterexample:
  "Go (Task RunInAsync (Some (VPtr TInt None)) (returning None None)) None
      [Check 0, Report 0] zeroed = Done None zeroed \<and>
   Go (Task RunInAsync (Some (VInt 0)) (returning None None)) None
      [Check 0, Report 0] zeroed = Done None zeroed"
  by (simp add: Go_def start_def initial_ctx_def Task_def RunInAsync_def asyncTask_def returning_def)

text \<open>
  Claim C5, amended. Take a task whose operation produces a non-nil value, whose unit
  finds the context live at its check, and before whose report the group has recorded
  no error. \<^verbatim>\<open>Go\<close> returns exactly when every unit has been checked and reported, and
  it then returns the wrapped error "destination pointer cannot be nil" for a nil
  pointer destination and the wrapped error "destination must be a pointer, ..." for a
  non-nil destination that is not a pointer. \<^verbatim>\<open>assignResult\<close> itself returns these
  errors, and does not panic, for every result it is given. A unit whose operation
  returns a nil value returns the operation's error for every destination: the
  destination is not validated.
\<close>

theorem Go_destination_validation:
  assumes sp: "sched = pre @ Check i # mid @ Report i # post"
    and ff: "first_failure a parent s i pre mid"
    and v: "fst (fun' (funcs a ! i) ()) \<noteq> None"
  shows "(Go a parent sched s = Blocked) = (\<not> complete (length (funcs a)) sched) \<and>
         ((\<exists>t. dest (funcs a ! i) = Some (VPtr t None)) \<and> complete (length (funcs a)) sched \<longrightarrow>
            (\<exists>s'. Go a parent sched s
               = Done (Some (WrapError ''failed to assign result: ''
                               (ErrorString ''destination pointer cannot be nil''))) s')) \<and>
         (dest (funcs a ! i) \<noteq> None \<and> ValueOf_Kind (dest (funcs a ! i)) \<noteq> KPtr \<and>
          complete (length (funcs a)) sched \<longrightarrow>
            (\<exists>s'. Go a parent sched s
               = Done (Some (WrapError ''failed to assign result: ''
                    (ErrorString (''destination must be a pointer, received ''
                       @ fmt_T (dest (funcs a ! i)) @ '' (kind: ''
                       @ Kind_String (ValueOf_Kind (dest (funcs a ! i))) @ '')'')))) s')) \<and>
         assignResult (Some (VPtr t None)) res s0
           = Returns (Some (ErrorString ''destination pointer cannot be nil''), s0) \<and>
         (ValueOf_Kind d \<noteq> KPtr \<longrightarrow> assignResult d res s0
           = Returns (Some (ErrorString (''destination must be a pointer, received '' @ fmt_T d
                       @ '' (kind: '' @ Kind_String (ValueOf_Kind d) @ '')'')), s0)) \<and>
         (fst (fn ()) = None \<longrightarrow> asyncTask None d fn s0 = Returns (snd (fn ()), s0))"
proof (intro conjI impI)
  show "(Go a parent sched s = Blocked) = (\<not> complete (length (funcs a)) sched)"
    by (rule Go_Blocked_iff)
next
  obtain w where w: "fst (fun' (funcs a ! i) ()) = Some w" using v by auto
  {
    assume h: "(\<exists>t. dest (funcs a ! i) = Some (VPtr t None)) \<and> complete (length (funcs a)) sched"
    then obtain t' where d: "dest (funcs a ! i) = Some (VPtr t' None)" by blast
    have "asyncTask None (dest (funcs a ! i)) (fun' (funcs a ! i)) s
            = Returns (Some (WrapError ''failed to assign result: ''
                               (ErrorString ''destination pointer cannot be nil'')), s)"
      using asyncTask_bind_error[where d="dest (funcs a ! i)" and fn="fun' (funcs a ! i)"
          and v=w and ?s0.0=s and ?s1.0=s] w d by simp
    then have "unit_error (funcs a ! i) = Some (WrapError ''failed to assign result: ''
                               (ErrorString ''destination pointer cannot be nil''))"
      using asyncTask_live_error by fastforce
    from Go_first_failure[OF sp ff this] h
    show "\<exists>s'. Go a parent sched s
               = Done (Some (WrapError ''failed to assign result: ''
                               (ErrorString ''destination pointer cannot be nil''))) s'" by simp
  }
  {
    assume h: "dest (funcs a ! i) \<noteq> None \<and> ValueOf_Kind (dest (funcs a ! i)) \<noteq> KPtr \<and>
          complete (length (funcs a)) sched"
    have "asyncTask None (dest (funcs a ! i)) (fun' (funcs a ! i)) s
            = Returns (Some (WrapError ''failed to assign result: ''
                    (ErrorString (''destination must be a pointer, received ''
                       @ fmt_T (dest (funcs a ! i)) @ '' (kind: ''
                       @ Kind_String (ValueOf_Kind (dest (funcs a ! i))) @ '')''))), s)"
      using asyncTask_bind_error[where d="dest (funcs a ! i)" and fn="fun' (funcs a ! i)"
          and v=w and ?s0.0=s and ?s1.0=s] w h assignResult_not_pointer by simp
    then have "unit_error (funcs a ! i) = Some (WrapError ''failed to assign result: ''
                    (ErrorString (''destination must be a pointer, received ''
                       @ fmt_T (dest (funcs a ! i)) @ '' (kind: ''
                       @ Kind_String (ValueOf_Kind (dest (funcs a ! i))) @ '')'')))"
      using asyncTask_live_error by fastforce
    from Go_first_failure[OF sp ff this] h
    show "\<exists>s'. Go a parent sched s
               = Done (Some (WrapError ''failed to assign result: ''
                    (ErrorString (''destination must be a pointer, received ''
                       @ fmt_T (dest (funcs a ! i)) @ '' (kind: ''
                       @ Kind_String (ValueOf_Kind (dest (funcs a ! i))) @ '')'')))) s'" by simp
  }
  show "assignResult (Some (VPtr t None)) res s0
           = Returns (Some (ErrorString ''destination pointer cannot be nil''), s0)"
    by simp
  {
    assume "ValueOf_Kind d \<noteq> KPtr"
    then show "assignResult d res s0
           = Returns (Some (ErrorString (''destination must be a pointer, received '' @ fmt_T d
                       @ '' (kind: '' @ Kind_String (ValueOf_Kind d) @ '')'')), s0)"
      by (rule assignResult_not_pointer)
  }
  assume "fst (fn ()) = None"
  then show "asyncTask None d fn s0 = Returns (snd (fn ()), s0)"
    using asyncTask_skip by blast
qed

theorem Go_destination_validation_witness:
  "first_failure rival_batch None zeroed 0 [] [Check 1] \<and>
   fst (fun' (funcs rival_batch ! 0) ()) = Some (VInt 42) \<and>
   complete (length (funcs rival_batch)) [Check 0, Check 1, Report 0, Report 1] \<and>
   (\<exists>s'. Go rival_batch None [Check 0, Check 1, Report 0, Report 1] zeroed
           = Done (Some (WrapError ''failed to assign result: ''
                           (ErrorString ''destination pointer cannot be nil''))) s') \<and>
   Go rival_batch None [Check 0, Check 1, Report 0] zeroed = Blocked \<and>
   first_failure non_pointer_batch None zeroed 0 [] [] \<and>
   (\<exists>s'. Go non_pointer_batch None [Check 0, Report 0] zeroed
           = Done (Some (WrapError ''failed to assign result: ''
                (ErrorString ''destination must be a pointer, received int (kind: int)''))) s')"
proof -
  have ff: "first_failure rival_batch None zeroed 0 [] [Check 1]"
    by (simp add: first_failure_def after_def start_def initial_ctx_def rival_funcs
        asyncTask_def returning_def)
  have ff': "first_failure non_pointer_batch None zeroed 0 [] []"
    by (simp add: first_failure_def after_def start_def initial_ctx_def non_pointer_batch_def
        single_task asyncTask_def returning_def)
  have v: "fst (fun' (funcs rival_batch ! 0) ()) = Some (VInt 42)"
    and v': "fst (fun' (funcs non_pointer_batch ! 0) ()) = Some (VInt 42)"
    by (simp_all add: rival_funcs non_pointer_batch_def single_task returning_def)
  have co: "complete (length (funcs rival_batch)) [Check 0, Check 1, Report 0, Report 1]"
    and nco: "\<not> complete (length (funcs rival_batch)) [Check 0, Check 1, Report 0]"
    and co': "complete (length (funcs non_pointer_batch)) [Check 0, Report 0]"
    by (simp_all add: rival_funcs non_pointer_batch_def single_task complete_def upt_rec)
  have 1: "\<exists>s'. Go rival_batch None [Check 0, Check 1, Report 0, Report 1] zeroed
           = Done (Some (WrapError ''failed to assign result: ''
                           (ErrorString ''destination pointer cannot be nil''))) s'"
    using Go_destination_validation[where pre="[]" and mid="[Check 1]" and post="[Report 1]",
        OF _ ff, THEN conjunct2, THEN conjunct1] v co
    by (simp add: rival_funcs)
  have 2: "Go rival_batch None [Check 0, Check 1, Report 0] zeroed = Blocked"
    using Go_destination_validation[where pre="[]" and mid="[Check 1]" and post="[]",
        OF _ ff, THEN conjunct1] v nco
    by simp
  have 3: "\<exists>s'. Go non_pointer_batch None [Check 0, Report 0] zeroed
           = Done (Some (WrapError ''failed to assign result: ''
                (ErrorString ''destination must be a pointer, received int (kind: int)''))) s'"
    using Go_destination_validation[where pre="[]" and mid="[]" and post="[]",
        OF _ ff', THEN conjunct2, THEN conjunct2, THEN conjunct1] v' co'
    by (simp add: non_pointer_batch_def single_task)
  show ?thesis using ff ff' v co 1 2 3 by blast
qed

text \<open>
  Claim C6 (type mismatch). Take a task whose destination points to variable \<open>p\<close> of
  type \<open>t\<close> and whose operation succeeds with a non-nil value of a type not assignable
  to \<open>t\<close>; the context is never cancelled, no other unit fails and no other task
  points to \<open>p\<close>. \<^verbatim>\<open>Go\<close> returns exactly when every unit has been checked and reported;
  it then returns the type-mismatch error wrapped as a failure of result assignment, and
  \<open>p\<close> holds what it held before. The unit itself returns that error with memory
  unchanged.
\<close>

theorem Go_type_mismatch:
  assumes nc: "never_cancelled a parent sched"
    and i: "i < length (funcs a)"
    and d: "dest (funcs a ! i) = Some (VPtr t (Some p))"
    and f: "fun' (funcs a ! i) () = (Some v, None)"
    and na: "\<not> AssignableTo (TypeOf v) t"
    and os: "others_succeed a i" and ua: "unaliased a i p"
  shows "(Go a parent sched s = Blocked) = (\<not> complete (length (funcs a)) sched) \<and>
         (complete (length (funcs a)) sched \<longrightarrow>
            (\<exists>s'. Go a parent sched s
               = Done (Some (WrapError ''failed to assign result: ''
                    (ErrorString (''type mismatch: cannot assign '' @ Type_String (TypeOf v)
                       @ '' to '' @ Type_String t)))) s' \<and> s' p = s p)) \<and>
         asyncTask None (dest (funcs a ! i)) (fun' (funcs a ! i)) s0
            = Returns (Some (WrapError ''failed to assign result: ''
                 (ErrorString (''type mismatch: cannot assign '' @ Type_String (TypeOf v)
                    @ '' to '' @ Type_String t))), s0)"
proof (intro conjI impI)
  show "(Go a parent sched s = Blocked) = (\<not> complete (length (funcs a)) sched)"
    by (rule Go_Blocked_iff)
next
  assume "complete (length (funcs a)) sched"
  then show "\<exists>s'. Go a parent sched s
               = Done (Some (WrapError ''failed to assign result: ''
                    (ErrorString (''type mismatch: cannot assign '' @ Type_String (TypeOf v)
                       @ '' to '' @ Type_String t)))) s' \<and> s' p = s p"
    using type_mismatch_joined[OF nc _ i d f na os ua] by simp
next
  show "asyncTask None (dest (funcs a ! i)) (fun' (funcs a ! i)) s0
            = Returns (Some (WrapError ''failed to assign result: ''
                 (ErrorString (''type mismatch: cannot assign '' @ Type_String (TypeOf v)
                    @ '' to '' @ Type_String t))), s0)"
    using d f na by (simp add: asyncTask_def)
qed

theorem Go_type_mismatch_witness:
  "never_cancelled mismatch_batch None [Check 0, Report 0] \<and>
   complete (length (funcs mismatch_batch)) [Check 0, Report 0] \<and>
   dest (funcs mismatch_batch ! 0) = Some (VPtr TString (Some 1)) \<and>
   fun' (funcs mismatch_batch ! 0) () = (Some (VInt 42), None) \<and>
   \<not> AssignableTo (TypeOf (VInt 42)) TString \<and>
   others_succeed mismatch_batch 0 \<and> unaliased mismatch_batch 0 1 \<and>
   (\<exists>s'. Go mismatch_batch None [Check 0, Report 0] zeroed
           = Done (Some (WrapError ''failed to assign result: ''
                (ErrorString ''type mismatch: cannot assign int to string''))) s' \<and>
         s' 1 = Some (VString [])) \<and>
   never_cancelled mismatch_batch None [Check 0] \<and>
   Go mismatch_batch None [Check 0] zeroed = Blocked"
proof -
  have nc: "never_cancelled mismatch_batch None [Check 0, Report 0]"
    and co: "complete (length (funcs mismatch_batch)) [Check 0, Report 0]"
    and os: "others_succeed mismatch_batch 0" and ua: "unaliased mismatch_batch 0 1"
    unfolding mismatch_batch_def by (rule single_schedule)+
  have nc': "never_cancelled mismatch_batch None [Check 0]"
    and nco: "\<not> complete (length (funcs mismatch_batch)) [Check 0]"
    by (simp_all add: never_cancelled_def initial_ctx_def mismatch_batch_def single_task
        complete_def)
  have i: "0 < length (funcs mismatch_batch)"
    and d: "dest (funcs mismatch_batch ! 0) = Some (VPtr TString (Some 1))"
    and f: "fun' (funcs mismatch_batch ! 0) () = (Some (VInt 42), None)"
    by (simp_all add: mismatch_batch_def single_task returning_def)
  have na: "\<not> AssignableTo (TypeOf (VInt 42)) TString" by (simp add: AssignableTo_def)
  have 1: "\<exists>s'. Go mismatch_batch None [Check 0, Report 0] zeroed
           = Done (Some (WrapError ''failed to assign result: ''
                (ErrorString ''type mismatch: cannot assign int to string''))) s' \<and>
         s' 1 = Some (VString [])"
    using Go_type_mismatch[OF nc i d f na os ua, THEN conjunct2, THEN conjunct1, of zeroed] co
    by (simp add: zeroed_def)
  have 2: "Go mismatch_batch None [Check 0] zeroed = Blocked"
    using Go_type_mismatch[OF nc' i d f na os ua, THEN conjunct1, of zeroed] nco by simp
  show ?thesis using nc nc' co d f na os ua 1 2 by blast
qed

text \<open>
  Claim C7 (nil-result tolerance). Take a task whose operation returns a nil value and
  no error; the context is never cancelled and no other unit fails. Then \<^verbatim>\<open>Go\<close> returns
  nil and every variable that no other task points to, the task's own destination
  among them, holds what it held before; the unit itself returns nil with memory
  unchanged.
\<close>

theorem Go_nil_result:
  assumes nc: "never_cancelled a parent sched" and co: "complete (length (funcs a)) sched"
    and i: "i < length (funcs a)" and f: "fun' (funcs a ! i) () = (None, None)"
    and os: "others_succeed a i"
  shows "(\<exists>s'. Go a parent sched s = Done None s' \<and> (\<forall>p. unaliased a i p \<longrightarrow> s' p = s p)) \<and>
         asyncTask None (dest (funcs a ! i)) (fun' (funcs a ! i)) s0 = Returns (None, s0)"
proof -
  have u: "\<forall>s0. asyncTask None (dest (funcs a ! i)) (fun' (funcs a ! i)) s0 = Returns (None, s0)"
    using asyncTask_skip[of "dest (funcs a ! i)" "fun' (funcs a ! i)"] f by simp
  then show ?thesis using Go_success_frame[OF nc co i os u] by simp
qed

theorem Go_nil_result_witness:
  "never_cancelled nil_result_batch None [Check 0, Report 0] \<and>
   complete (length (funcs nil_result_batch)) [Check 0, Report 0] \<and>
   fun' (funcs nil_result_batch ! 0) () = (None, None) \<and>
   others_succeed nil_result_batch 0 \<and> unaliased nil_result_batch 0 0 \<and>
   (\<exists>s'. Go nil_result_batch None [Check 0, Report 0] zeroed = Done None s' \<and>
         s' 0 = Some (VInt 0))"
proof -
  have nc: "never_cancelled nil_result_batch None [Check 0, Report 0]"
    and co: "complete (length (funcs nil_result_batch)) [Check 0, Report 0]"
    and os: "others_succeed nil_result_batch 0" and ua: "unaliased nil_result_batch 0 0"
    unfolding nil_result_batch_def by (rule single_schedule)+
  have i: "0 < length (funcs nil_result_batch)"
    and f: "fun' (funcs nil_result_batch ! 0) () = (None, None)"
    by (simp_all add: nil_result_batch_def single_task returning_def)
  have "\<exists>s'. Go nil_result_batch None [Check 0, Report 0] zeroed = Done None s' \<and>
         s' 0 = Some (VInt 0)"
    using Go_nil_result[OF nc co i f os, THEN conjunct1, of zeroed] ua
    by (auto simp: zeroed_def)
  then show ?thesis using nc co f os ua by blast
qed

text \<open>
  Claim C8 (validation is conditional). A unit whose destination is the nil interface,
  or whose operation returns a nil value, returns the operation's error with memory
  unchanged: no check of the destination takes place. In particular a task with a nil
  interface destination whose operation succeeds with a non-nil value makes \<^verbatim>\<open>Go\<close> return
  nil (context never cancelled, no other unit failing), and the value is written
  nowhere.
\<close>

theorem Go_validation_skipped:
  assumes nc: "never_cancelled a parent sched" and co: "complete (length (funcs a)) sched"
    and i: "i < length (funcs a)" and d: "dest (funcs a ! i) = None"
    and f: "fun' (funcs a ! i) () = (Some v, None)" and os: "others_succeed a i"
  shows "(\<exists>s'. Go a parent sched s = Done None s' \<and> (\<forall>p. unaliased a i p \<longrightarrow> s' p = s p)) \<and>
         (dst = None \<or> fst (fn ()) = None \<longrightarrow>
            asyncTask None dst fn s0 = Returns (snd (fn ()), s0))"
proof -
  have u: "\<forall>s0. asyncTask None (dest (funcs a ! i)) (fun' (funcs a ! i)) s0 = Returns (None, s0)"
    using asyncTask_skip[of "dest (funcs a ! i)" "fun' (funcs a ! i)"] d f by simp
  show ?thesis using Go_success_frame[OF nc co i os u] asyncTask_skip by blast
qed

theorem Go_validation_skipped_witness:
  "never_cancelled nil_destination_batch None [Check 0, Report 0] \<and>
   complete (length (funcs nil_destination_batch)) [Check 0, Report 0] \<and>
   dest (funcs nil_destination_batch ! 0) = None \<and>
   fun' (funcs nil_destination_batch ! 0) () = (Some (VInt 42), None) \<and>
   others_succeed nil_destination_batch 0 \<and>
   (\<exists>s'. Go nil_destination_batch None [Check 0, Report 0] zeroed = Done None s') \<and>
   asyncTask None (Some (VPtr TInt None)) (returning None None) zeroed = Returns (None, zeroed)"
proof -
  have nc: "never_cancelled nil_destination_batch None [Check 0, Report 0]"
    and co: "complete (length (funcs nil_destination_batch)) [Check 0, Report 0]"
    and os: "others_succeed nil_destination_batch 0"
    unfolding nil_destination_batch_def by (rule single_schedule)+
  have i: "0 < length (funcs nil_destination_batch)"
    and d: "dest (funcs nil_destination_batch ! 0) = None"
    and f: "fun' (funcs nil_destination_batch ! 0) () = (Some (VInt 42), None)"
    by (simp_all add: nil_destination_batch_def single_task returning_def)
  have 1: "\<exists>s'. Go nil_destination_batch None [Check 0, Report 0] zeroed = Done None s'"
    using Go_validation_skipped[OF nc co i d f os, THEN conjunct1, of zeroed] by blast
  have 2: "asyncTask None (Some (VPtr TInt None)) (returning None None) zeroed
             = Returns (None, zeroed)"
    using Go_validation_skipped[OF nc co i d f os, THEN conjunct2,
        of "Some (VPtr TInt None)" "returning None None" zeroed]
    by (simp add: returning_def)
  show ?thesis using nc co d f os 1 2 by blast
qed

text \<open>
  Claim C9 (value together with an error). Take a task whose operation returns a
  non-nil value \<open>v\<close> and an error \<open>e\<close>; the context is never cancelled and no other unit
  fails. If the destination points to a variable \<open>p\<close> that accepts \<open>v\<close>, the unit writes
  \<open>v\<close> to \<open>p\<close> and returns \<open>e\<close>, and \<^verbatim>\<open>Go\<close> returns \<open>e\<close> with \<open>p\<close> holding \<open>v\<close> (no other
  task pointing to \<open>p\<close>). If the assignment fails with \<open>ae\<close>, the unit and \<^verbatim>\<open>Go\<close> return
  \<open>ae\<close> wrapped as a failure of result assignment, and \<open>e\<close> is not reported.
\<close>

theorem Go_value_and_error:
  assumes nc: "never_cancelled a parent sched" and co: "complete (length (funcs a)) sched"
    and i: "i < length (funcs a)" and f: "fun' (funcs a ! i) () = (Some v, Some e)"
    and os: "others_succeed a i"
  shows "(dest (funcs a ! i) = Some (VPtr t (Some p)) \<and> AssignableTo (TypeOf v) t \<longrightarrow>
            asyncTask None (dest (funcs a ! i)) (fun' (funcs a ! i)) s0
              = Returns (Some e, s0(p := Some v)) \<and>
            (unaliased a i p \<longrightarrow>
               (\<exists>s'. Go a parent sched s = Done (Some e) s' \<and> s' p = Some v))) \<and>
         (dest (funcs a ! i) \<noteq> None \<and>
          assignResult (dest (funcs a ! i)) (Some v) s0 = Returns (Some ae, s1) \<longrightarrow>
            asyncTask None (dest (funcs a ! i)) (fun' (funcs a ! i)) s0
              = Returns (Some (WrapError ''failed to assign result: '' ae), s0) \<and>
            (\<exists>s'. Go a parent sched s
               = Done (Some (WrapError ''failed to assign result: '' ae)) s'))"
proof (intro conjI impI)
  assume h: "dest (funcs a ! i) = Some (VPtr t (Some p)) \<and> AssignableTo (TypeOf v) t"
  then have u: "\<And>s0. asyncTask None (dest (funcs a ! i)) (fun' (funcs a ! i)) s0
              = Returns (Some e, s0(p := Some v))"
    using f by (simp add: asyncTask_bind)
  then show "asyncTask None (dest (funcs a ! i)) (fun' (funcs a ! i)) s0
              = Returns (Some e, s0(p := Some v))" .
  assume ua: "unaliased a i p"
  obtain s' where g: "Go a parent sched s = Done (Some e) s'"
    using Go_sole_failure_at[OF nc co i os u] by blast
  have others: "\<forall>j<length (funcs a). j \<noteq> i \<longrightarrow>
                   unit_error (funcs a ! j) = None \<and> slot (funcs a ! j) \<noteq> Some p"
    using os ua by (simp add: others_succeed_iff unaliased_iff)
  have "fst (fun' (funcs a ! i) ()) = Some v" using f by simp
  from Go_bound[OF nc co i _ this _ others, of t s] h g
  show "\<exists>s'. Go a parent sched s = Done (Some e) s' \<and> s' p = Some v" by simp
next
  assume h: "dest (funcs a ! i) \<noteq> None \<and>
          assignResult (dest (funcs a ! i)) (Some v) s0 = Returns (Some ae, s1)"
  have "fst (fun' (funcs a ! i) ()) = Some v" using f by simp
  then show u: "asyncTask None (dest (funcs a ! i)) (fun' (funcs a ! i)) s0
              = Returns (Some (WrapError ''failed to assign result: '' ae), s0)"
    using asyncTask_bind_error[where d="dest (funcs a ! i)" and fn="fun' (funcs a ! i)"
          and v=v and ?s0.0=s0 and ?s1.0=s1 and ae=ae] h by simp
  show "\<exists>s'. Go a parent sched s = Done (Some (WrapError ''failed to assign result: '' ae)) s'"
    using Go_sole_failure_at[OF nc co i os u] .
qed

theorem Go_value_and_error_witness:
  "never_cancelled value_error_batch None [Check 0, Report 0] \<and>
   complete (length (funcs value_error_batch)) [Check 0, Report 0] \<and>
   fun' (funcs value_error_batch ! 0) () = (Some (VInt 42), Some (ErrorString ''test error'')) \<and>
   others_succeed value_error_batch 0 \<and> unaliased value_error_batch 0 0 \<and>
   dest (funcs value_error_batch ! 0) = Some (VPtr TInt (Some 0)) \<and>
   AssignableTo (TypeOf (VInt 42)) TInt \<and>
   (\<exists>s'. Go value_error_batch None [Check 0, Report 0] zeroed
           = Done (Some (ErrorString ''test error'')) s' \<and> s' 0 = Some (VInt 42)) \<and>
   (\<exists>s'. Go masked_error_batch None [Check 0, Report 0] zeroed
           = Done (Some (WrapError ''failed to assign result: ''
                (ErrorString ''type mismatch: cannot assign int to string''))) s')"
proof -
  have nc: "never_cancelled value_error_batch None [Check 0, Report 0]"
    and co: "complete (length (funcs value_error_batch)) [Check 0, Report 0]"
    and os: "others_succeed value_error_batch 0" and ua: "unaliased value_error_batch 0 0"
    and nc': "never_cancelled masked_error_batch None [Check 0, Report 0]"
    and co': "complete (length (funcs masked_error_batch)) [Check 0, Report 0]"
    and os': "others_succeed masked_error_batch 0"
    unfolding value_error_batch_def masked_error_batch_def by (rule single_schedule)+
  have i: "0 < length (funcs value_error_batch)"
    and d: "dest (funcs value_error_batch ! 0) = Some (VPtr TInt (Some 0))"
    and f: "fun' (funcs value_error_batch ! 0) () = (Some (VInt 42), Some (ErrorString ''test error''))"
    and i': "0 < length (funcs masked_error_batch)"
    and d': "dest (funcs masked_error_batch ! 0) = Some (VPtr TString (Some 1))"
    and f': "fun' (funcs masked_error_batch ! 0) () = (Some (VInt 42), Some (ErrorString ''test error''))"
    by (simp_all add: value_error_batch_def masked_error_batch_def single_task returning_def)
  have asg: "AssignableTo (TypeOf (VInt 42)) TInt" by (simp add: AssignableTo_def)
  have 1: "\<exists>s'. Go value_error_batch None [Check 0, Report 0] zeroed
           = Done (Some (ErrorString ''test error'')) s' \<and> s' 0 = Some (VInt 42)"
    using Go_value_and_error[OF nc co i f os, THEN conjunct1, of TInt 0 _ zeroed] d asg ua
    by simp
  have 2: "\<exists>s'. Go masked_error_batch None [Check 0, Report 0] zeroed
           = Done (Some (WrapError ''failed to assign result: ''
                (ErrorString ''type mismatch: cannot assign int to string''))) s'"
    using Go_value_and_error[OF nc' co' i' f' os', THEN conjunct2,
        of zeroed "ErrorString ''type mismatch: cannot assign int to string''" zeroed zeroed] d'
    by (simp add: AssignableTo_def)
  show ?thesis using nc co f os ua d asg 1 2 by blast
qed

text \<open>
  Claim C10 (empty batch). A batch with no registered task returns nil and leaves
  memory as it was, whatever the timeout, the caller's context and the external events
  of the schedule; the empty schedule is one of them, so nothing has to happen first.
\<close>

theorem Go_empty_batch:
  assumes "funcs a = []"
  shows "Go a parent sched s = Done None s"
proof -
  obtain g where g: "run a sched (start a parent s) = Returns g" using run_Returns by blast
  have "units g = [] \<and> gErr g = gErr (start a parent s) \<and> mem g = mem (start a parent s)"
    using run_empty[OF assms g] assms by (simp add: start_def)
  then show ?thesis using g by (simp add: Go_def start_def)
qed

theorem Go_empty_batch_witness:
  "funcs (WithTimeout RunInAsync 50) = [] \<and>
   Go (WithTimeout RunInAsync 50) None [Timeout] zeroed = Done None zeroed \<and>
   Go RunInAsync None [] zeroed = Done None zeroed \<and>
   Go RunInAsync (Some Canceled) [] zeroed = Done None zeroed"
  using Go_empty_batch[of "WithTimeout RunInAsync 50" None "[Timeout]" zeroed]
    Go_empty_batch[of RunInAsync None "[]" zeroed]
    Go_empty_batch[of RunInAsync "Some Canceled" "[]" zeroed]
  by (simp add: WithTimeout_def RunInAsync_def)

end
